theory Spec2Isabelle
  imports Main "HOL-Library.AList"
begin

section \<open>Frontend management: data model\<close>

text \<open>
  The module \<^verbatim>\<open>app/frontend_management.py\<close> resolves a version specifier to a directory
  that holds a web frontend. Python strings are modelled as \<^typ>\<open>string\<close>: lists of
  characters with code points below 256. On this range the classes of the version
  pattern are the ASCII ones (\<^verbatim>\<open>\d\<close> has no member between 128 and 255).
\<close>

subsection \<open>Exceptions\<close>

text \<open>
  Every exception the module can raise is a value; all of them are subclasses of
  Python's \<^verbatim>\<open>Exception\<close>. \<open>ValueError\<close> is what the source raises for a version that
  is not among the releases and for a release without a usable \<^verbatim>\<open>dist.zip\<close>;
  \<open>ArgumentTypeError\<close> is what it raises for a malformed version string.
\<close>

datatype error =
    ArgumentTypeError string
  | ValueError string
  | KeyError string
  | IndexError string
  | HTTPError nat
  | ConnectionError string
  | JSONDecodeError
  | TypeError
  | BadZipFile
  | FileNotFoundError string
  | FileExistsError string
  | NotADirectoryError string
  | DirectoryNotEmpty string

subsection \<open>Releases and assets\<close>

text \<open>
  An asset is a JSON object read with \<^verbatim>\<open>asset["name"]\<close> and \<^verbatim>\<open>asset["url"]\<close>; the declared
  \<^verbatim>\<open>Asset\<close> shape names only \<^verbatim>\<open>url\<close>, so the object is kept as a dictionary and a
  missing key is a \<open>KeyError\<close>. A release follows the \<^verbatim>\<open>Release\<close> declaration; \<open>assets\<close>
  is \<^verbatim>\<open>NotRequired\<close>, hence optional.
\<close>

type_synonym asset = "(string \<times> string) list"

record release =
  release_id :: int
  tag_name :: string
  release_name :: string
  prerelease :: bool
  created_at :: string
  published_at :: string
  release_body :: string
  assets :: "asset list option"

definition getitem :: "asset \<Rightarrow> string \<Rightarrow> error + string" where
  "getitem a k = (case map_of a k of None \<Rightarrow> Inl (KeyError k) | Some v \<Rightarrow> Inr v)"

record FrontEndProvider =
  owner :: string
  repo :: string

definition folder_name :: "FrontEndProvider \<Rightarrow> string" where
  "folder_name p = owner p @ ''_'' @ repo p"

definition release_url :: "FrontEndProvider \<Rightarrow> string" where
  "release_url p = ''https://api.github.com/repos/'' @ owner p @ ''/'' @ repo p @ ''/releases''"

subsection \<open>The network, the file system and the log\<close>

text \<open>
  \<^verbatim>\<open>requests.get\<close> is a call into the world: the server answers a request with a
  response or the transport fails. A response carries its status, the \<^verbatim>\<open>next\<close> relation
  of its \<^verbatim>\<open>Link\<close> header, and its body, decoded as far as the module reads it.
  A zip archive is the list of its members in extraction order; a member whose data
  cannot be read makes \<^verbatim>\<open>extractall\<close> raise once the members before it are written.
\<close>

definition REQUEST_TIMEOUT :: nat where
  "REQUEST_TIMEOUT = 10"

record request =
  url :: string
  headers :: "(string \<times> string) list"
  allow_redirects :: bool
  timeout :: nat

datatype zip_member = Member string string | Unreadable

datatype body =
    ReleaseArray "release list"
  | ReleaseObject release
  | ZipArchive "zip_member list"
  | OtherBytes

record response =
  status_code :: nat
  next_link :: "string option"
  content :: body

record world =
  http_get :: "request \<Rightarrow> error + response"

text \<open>
  A directory node holds its entries (name and data); the file system maps a path, as
  the path string names it, to its node. Only the node at a path is tracked: the
  parent directories that \<^verbatim>\<open>os.makedirs\<close> creates on the way are not part of the
  state. Operations fail only for the reason the state shows (a missing path, a file
  where a directory is needed, a directory that is not empty).
\<close>

datatype node = File string | Dir "(string \<times> string) list"

type_synonym filesystem = "string \<Rightarrow> node option"

datatype log_entry =
    LogInfo string
  | LogDebug release
  | LogError string error

record state =
  fs :: filesystem
  sent :: "request list"
  logged :: "log_entry list"

text \<open>
  What the embedding application supplies: the sentinel \<^verbatim>\<open>DEFAULT_VERSION_STRING\<close>
  (imported from \<^verbatim>\<open>comfy.cli_args\<close>), the two class constants, and the platform's
  \<^verbatim>\<open>str(Path(root) / a / b)\<close>.
\<close>

record env =
  DEFAULT_VERSION_STRING :: string
  DEFAULT_FRONTEND_PATH :: string
  CUSTOM_FRONTENDS_ROOT :: string
  joinpath :: "string \<Rightarrow> string list \<Rightarrow> string"

section \<open>The version pattern\<close>

text \<open>
  The fragment of Python's \<^verbatim>\<open>re\<close> that \<^verbatim>\<open>VERSION_PATTERN\<close> uses. \<open>run\<close> lists the
  ways a pattern can match at a position in the order Python's backtracking tries
  them (a greedy repetition gives its longest match first, an alternation its left
  branch first); \<^verbatim>\<open>re.match\<close> takes the first. A matcher state is the number of
  characters consumed, the rest of the input, and the groups closed so far.
  \<^verbatim>\<open>$\<close> matches at the end of the string and also just before a newline that ends it.
\<close>

datatype regex =
    Bol
  | Eol
  | Lit string
  | Chars "char \<Rightarrow> bool" nat "nat option"
  | Seq regex regex
  | Alt regex regex
  | Grp regex

type_synonym mstate = "nat \<times> string \<times> string list"

fun run :: "regex \<Rightarrow> mstate \<Rightarrow> mstate list" where
  "run Bol (k, s, gs) = (if k = 0 then [(k, s, gs)] else [])"
| "run Eol (k, s, gs) = (if s = [] \<or> s = [CHR 0x0A] then [(k, s, gs)] else [])"
| "run (Lit t) (k, s, gs) =
     (if take (length t) s = t then [(k + length t, drop (length t) s, gs)] else [])"
| "run (Chars P lo hi) (k, s, gs) =
     (let n = length (takeWhile P s);
          m = (case hi of None \<Rightarrow> n | Some h \<Rightarrow> min n h)
      in map (\<lambda>j. (k + j, drop j s, gs)) (rev [lo..<Suc m]))"
| "run (Seq a b) st = concat (map (run b) (run a st))"
| "run (Alt a b) st = run a st @ run b st"
| "run (Grp a) (k, s, gs) =
     map (\<lambda>(k', s', gs'). (k', s', gs' @ [take (k' - k) s])) (run a (k, s, gs))"

definition re_match :: "regex \<Rightarrow> string \<Rightarrow> string list option" where
  "re_match r v = (case run r (0, v, []) of [] \<Rightarrow> None | (k, s, gs) # _ \<Rightarrow> Some gs)"

definition is_digit :: "char \<Rightarrow> bool" where
  "is_digit c = (48 \<le> (of_char c :: nat) \<and> (of_char c :: nat) \<le> 57)"

definition is_alnum :: "char \<Rightarrow> bool" where
  "is_alnum c =
     ((97 \<le> (of_char c :: nat) \<and> (of_char c :: nat) \<le> 122)
      \<or> (65 \<le> (of_char c :: nat) \<and> (of_char c :: nat) \<le> 90)
      \<or> is_digit c)"

definition is_owner_char :: "char \<Rightarrow> bool" where
  "is_owner_char c = (is_alnum c \<or> c = CHR ''-'')"

definition is_repo_char :: "char \<Rightarrow> bool" where
  "is_repo_char c = (is_alnum c \<or> c = CHR ''_'' \<or> c = CHR ''.'' \<or> c = CHR ''-'')"

text \<open>
  \<^verbatim>\<open>^([a-zA-Z0-9][a-zA-Z0-9-]{0,38})/([a-zA-Z0-9_.-]+)@(v?\d+\.\d+\.\d+|latest)$\<close>
\<close>

definition OWNER_RE :: regex where
  "OWNER_RE = Seq (Chars is_alnum 1 (Some 1)) (Chars is_owner_char 0 (Some 38))"

definition REPO_RE :: regex where
  "REPO_RE = Chars is_repo_char 1 None"

definition SEMVER_RE :: regex where
  "SEMVER_RE =
     Seq (Chars (\<lambda>c. c = CHR ''v'') 0 (Some 1))
    (Seq (Chars is_digit 1 None)
    (Seq (Lit ''.'')
    (Seq (Chars is_digit 1 None)
    (Seq (Lit ''.'')
         (Chars is_digit 1 None)))))"

definition VERSION_RE :: regex where
  "VERSION_RE = Alt SEMVER_RE (Lit ''latest'')"

definition VERSION_PATTERN :: regex where
  "VERSION_PATTERN =
     Seq Bol
    (Seq (Grp OWNER_RE)
    (Seq (Lit ''/'')
    (Seq (Grp REPO_RE)
    (Seq (Lit ''@'')
    (Seq (Grp VERSION_RE)
         Eol)))))"

definition parse_version_string :: "string \<Rightarrow> error + (string \<times> string \<times> string)" where
  "parse_version_string v =
     (case re_match VERSION_PATTERN v of
        None \<Rightarrow> Inl (ArgumentTypeError (''Invalid version string: '' @ v))
      | Some [g1, g2, g3] \<Rightarrow> Inr (g1, g2, g3)
      | Some _ \<Rightarrow> Inl (IndexError ''no such group''))"

section \<open>The release provider\<close>

definition raise_for_status :: "response \<Rightarrow> error + unit" where
  "raise_for_status r =
     (if 400 \<le> status_code r \<and> status_code r < 600 then Inl (HTTPError (status_code r))
      else Inr ())"

text \<open>Each call of \<^verbatim>\<open>requests.get\<close> is recorded, in order, whatever its outcome.\<close>

definition requests_get :: "world \<Rightarrow> request \<Rightarrow> state \<Rightarrow> (error + response) \<times> state" where
  "requests_get w rq st = (http_get w rq, st\<lparr>sent := sent st @ [rq]\<rparr>)"

definition plain_get :: "string \<Rightarrow> request" where
  "plain_get u = \<lparr>url = u, headers = [], allow_redirects = True, timeout = REQUEST_TIMEOUT\<rparr>"

text \<open>
  \<^verbatim>\<open>response.json()\<close>, read at the type the caller declares for it (\<^verbatim>\<open>list[Release]\<close> for
  a page, \<^verbatim>\<open>Release\<close> for the latest release). A body that is not JSON does not decode.
  A JSON body of the other shape lies outside the declared types: Python would carry
  the ill-typed value on and raise \<open>TypeError\<close> at its first subscript, the model raises
  it where the value is read.
\<close>

definition json_releases :: "response \<Rightarrow> error + release list" where
  "json_releases r =
     (case content r of
        ReleaseArray rs \<Rightarrow> Inr rs
      | ReleaseObject _ \<Rightarrow> Inl TypeError
      | _ \<Rightarrow> Inl JSONDecodeError)"

definition json_release :: "response \<Rightarrow> error + release" where
  "json_release r =
     (case content r of
        ReleaseObject x \<Rightarrow> Inr x
      | ReleaseArray _ \<Rightarrow> Inl TypeError
      | _ \<Rightarrow> Inl JSONDecodeError)"

text \<open>
  The \<^verbatim>\<open>while api_url:\<close> loop of \<^verbatim>\<open>all_releases\<close>. It ends when the link is absent or
  empty, and it need not end: a server may hand out \<^verbatim>\<open>next\<close> links for ever, in which
  case the value is \<open>None\<close>. \<^verbatim>\<open>all_releases\<close> and \<^verbatim>\<open>latest_release\<close> are cached
  properties; one resolution reads each at most once, so the cache is not part of the
  state.
\<close>

partial_function (option) all_releases_loop ::
  "world \<Rightarrow> string option \<Rightarrow> release list \<Rightarrow> state \<Rightarrow> ((error + release list) \<times> state) option"
where
  "all_releases_loop w api_url releases st =
     (case api_url of
        None \<Rightarrow> Some (Inr releases, st)
      | Some u \<Rightarrow>
          if u = [] then Some (Inr releases, st)
          else
            (case requests_get w (plain_get u) st of
               (Inl e, st1) \<Rightarrow> Some (Inl e, st1)
             | (Inr resp, st1) \<Rightarrow>
                 (case raise_for_status resp of
                    Inl e \<Rightarrow> Some (Inl e, st1)
                  | Inr _ \<Rightarrow>
                      (case json_releases resp of
                         Inl e \<Rightarrow> Some (Inl e, st1)
                       | Inr page \<Rightarrow>
                           all_releases_loop w (next_link resp) (releases @ page) st1))))"

definition all_releases ::
  "world \<Rightarrow> FrontEndProvider \<Rightarrow> state \<Rightarrow> ((error + release list) \<times> state) option" where
  "all_releases w p st = all_releases_loop w (Some (release_url p)) [] st"

definition latest_release ::
  "world \<Rightarrow> FrontEndProvider \<Rightarrow> state \<Rightarrow> (error + release) \<times> state" where
  "latest_release w p st =
     (case requests_get w (plain_get (release_url p @ ''/latest'')) st of
        (Inl e, st1) \<Rightarrow> (Inl e, st1)
      | (Inr resp, st1) \<Rightarrow>
          (case raise_for_status resp of
             Inl e \<Rightarrow> (Inl e, st1)
           | Inr _ \<Rightarrow> (json_release resp, st1)))"

text \<open>The \<^verbatim>\<open>for release in self.all_releases\<close> scan of \<^verbatim>\<open>get_release\<close>.\<close>

fun scan_releases :: "release list \<Rightarrow> string \<Rightarrow> error + release" where
  "scan_releases [] version = Inl (ValueError (''Version '' @ version @ '' not found in releases''))"
| "scan_releases (r # rs) version =
     (if tag_name r \<in> set [version, ''v'' @ version] then Inr r else scan_releases rs version)"

definition get_release ::
  "world \<Rightarrow> FrontEndProvider \<Rightarrow> string \<Rightarrow> state \<Rightarrow> ((error + release) \<times> state) option" where
  "get_release w p version st =
     (if version = ''latest'' then Some (latest_release w p st)
      else
        (case all_releases w p st of
           None \<Rightarrow> None
         | Some (Inl e, st1) \<Rightarrow> Some (Inl e, st1)
         | Some (Inr rels, st1) \<Rightarrow> Some (scan_releases rels version, st1)))"

section \<open>Downloading the asset\<close>

text \<open>The \<^verbatim>\<open>for asset in release.get("assets", [])\<close> scan, with its \<^verbatim>\<open>break\<close>.\<close>

fun scan_assets :: "asset list \<Rightarrow> error + string option" where
  "scan_assets [] = Inr None"
| "scan_assets (a # rest) =
     (case getitem a ''name'' of
        Inl e \<Rightarrow> Inl e
      | Inr n \<Rightarrow>
          if n = ''dist.zip'' then
            (case getitem a ''url'' of Inl e \<Rightarrow> Inl e | Inr u \<Rightarrow> Inr (Some u))
          else scan_assets rest)"

definition asset_request :: "string \<Rightarrow> request" where
  "asset_request u =
     \<lparr>url = u, headers = [(''Accept'', ''application/octet-stream'')],
      allow_redirects = True, timeout = REQUEST_TIMEOUT\<rparr>"

text \<open>
  \<^verbatim>\<open>zip_ref.extractall(destination_path)\<close>: members are written one after the other
  into the destination, which is created when missing. The temporary file that buffers
  the body lives outside the destination and is gone when the call ends; it is not
  part of the state.
\<close>

fun extractall :: "filesystem \<Rightarrow> string \<Rightarrow> zip_member list \<Rightarrow> (error + unit) \<times> filesystem" where
  "extractall f d [] = (Inr (), f)"
| "extractall f d (Unreadable # ms) = (Inl BadZipFile, f)"
| "extractall f d (Member n x # ms) =
     (case f d of
        Some (File _) \<Rightarrow> (Inl (NotADirectoryError d), f)
      | Some (Dir es) \<Rightarrow> extractall (f(d \<mapsto> Dir (AList.update n x es))) d ms
      | None \<Rightarrow> extractall (f(d \<mapsto> Dir [(n, x)])) d ms)"

definition download_release_asset_zip ::
  "world \<Rightarrow> release \<Rightarrow> string \<Rightarrow> state \<Rightarrow> (error + unit) \<times> state" where
  "download_release_asset_zip w rel destination_path st =
     (case scan_assets (case assets rel of None \<Rightarrow> [] | Some xs \<Rightarrow> xs) of
        Inl e \<Rightarrow> (Inl e, st)
      | Inr asset_url \<Rightarrow>
          (case (if asset_url = Some [] then None else asset_url) of
             None \<Rightarrow> (Inl (ValueError ''dist.zip not found in the release assets''), st)
           | Some u \<Rightarrow>
               (case requests_get w (asset_request u) st of
                  (Inl e, st1) \<Rightarrow> (Inl e, st1)
                | (Inr resp, st1) \<Rightarrow>
                    (case raise_for_status resp of
                       Inl e \<Rightarrow> (Inl e, st1)
                     | Inr _ \<Rightarrow>
                         (case content resp of
                            ZipArchive ms \<Rightarrow>
                              (case extractall (fs st1) destination_path ms of
                                 (r, f') \<Rightarrow> (r, st1\<lparr>fs := f'\<rparr>))
                          | _ \<Rightarrow> (Inl BadZipFile, st1))))))"

section \<open>The frontend manager\<close>

definition exists_path :: "filesystem \<Rightarrow> string \<Rightarrow> bool" where
  "exists_path f p = (f p \<noteq> None)"

definition makedirs :: "filesystem \<Rightarrow> string \<Rightarrow> error + filesystem" where
  "makedirs f p =
     (case f p of
        None \<Rightarrow> Inr (f(p \<mapsto> Dir []))
      | Some (Dir _) \<Rightarrow> Inr f
      | Some (File _) \<Rightarrow> Inl (FileExistsError p))"

definition listdir :: "filesystem \<Rightarrow> string \<Rightarrow> error + string list" where
  "listdir f p =
     (case f p of
        None \<Rightarrow> Inl (FileNotFoundError p)
      | Some (File _) \<Rightarrow> Inl (NotADirectoryError p)
      | Some (Dir es) \<Rightarrow> Inr (map fst es))"

definition rmdir :: "filesystem \<Rightarrow> string \<Rightarrow> error + filesystem" where
  "rmdir f p =
     (case f p of
        None \<Rightarrow> Inl (FileNotFoundError p)
      | Some (File _) \<Rightarrow> Inl (NotADirectoryError p)
      | Some (Dir es) \<Rightarrow> if es = [] then Inr (f(p := None)) else Inl (DirectoryNotEmpty p))"

definition startswith :: "string \<Rightarrow> string \<Rightarrow> bool" where
  "startswith s t = (take (length t) s = t)"

definition lstrip :: "string \<Rightarrow> string \<Rightarrow> string" where
  "lstrip s cs = dropWhile (\<lambda>c. c \<in> set cs) s"

definition info :: "string \<Rightarrow> state \<Rightarrow> state" where
  "info m st = st\<lparr>logged := logged st @ [LogInfo m]\<rparr>"

definition semantic_version :: "release \<Rightarrow> string" where
  "semantic_version rel = lstrip (tag_name rel) ''v''"

definition web_root_of :: "env \<Rightarrow> FrontEndProvider \<Rightarrow> release \<Rightarrow> string" where
  "web_root_of ev p rel =
     joinpath ev (CUSTOM_FRONTENDS_ROOT ev) [folder_name p, semantic_version rel]"

definition expected_path_of :: "env \<Rightarrow> string \<Rightarrow> string \<Rightarrow> string \<Rightarrow> string" where
  "expected_path_of ev repo_owner repo_name version =
     joinpath ev (CUSTOM_FRONTENDS_ROOT ev) [repo_owner @ ''_'' @ repo_name, lstrip version ''v'']"

text \<open>
  The \<^verbatim>\<open>try: ... finally: ...\<close> block of \<^verbatim>\<open>init_frontend_unsafe\<close>, entered when
  \<^verbatim>\<open>web_root\<close> does not exist. The \<^verbatim>\<open>finally\<close> clause runs on every exit of the \<^verbatim>\<open>try\<close>
  body; an exception it raises replaces the one in flight.
\<close>

definition try_download :: "world \<Rightarrow> FrontEndProvider \<Rightarrow> release \<Rightarrow> string \<Rightarrow> state \<Rightarrow> (error + unit) \<times> state" where
  "try_download w p rel web_root st =
     (case makedirs (fs st) web_root of
        Inl e \<Rightarrow> (Inl e, st)
      | Inr f1 \<Rightarrow>
          download_release_asset_zip w rel web_root
            (st\<lparr>fs := f1,
                logged := logged st @
                  [LogInfo (''Downloading frontend('' @ folder_name p @ '') version(''
                            @ semantic_version rel @ '') to ('' @ web_root @ '')''),
                   LogDebug rel]\<rparr>))"

definition finally_cleanup :: "string \<Rightarrow> (error + unit) \<times> state \<Rightarrow> (error + unit) \<times> state" where
  "finally_cleanup web_root out =
     (case out of (r, st) \<Rightarrow>
        (case listdir (fs st) web_root of
           Inl e \<Rightarrow> (Inl e, st)
         | Inr names \<Rightarrow>
             if names = [] then
               (case rmdir (fs st) web_root of
                  Inl e \<Rightarrow> (Inl e, st)
                | Inr f' \<Rightarrow> (r, st\<lparr>fs := f'\<rparr>))
             else (r, st)))"

definition download_step :: "world \<Rightarrow> FrontEndProvider \<Rightarrow> release \<Rightarrow> string \<Rightarrow> state \<Rightarrow> (error + unit) \<times> state" where
  "download_step w p rel web_root st = finally_cleanup web_root (try_download w p rel web_root st)"

definition existing_copy_msg :: "string \<Rightarrow> string \<Rightarrow> string \<Rightarrow> string" where
  "existing_copy_msg repo_owner repo_name version =
     ''Using existing copy of specific frontend version tag: ''
     @ repo_owner @ ''/'' @ repo_name @ ''@'' @ version"

definition initializing_msg :: "string \<Rightarrow> string \<Rightarrow> string \<Rightarrow> string" where
  "initializing_msg repo_owner repo_name version =
     ''Initializing frontend: '' @ repo_owner @ ''/'' @ repo_name @ ''@'' @ version
     @ '', requesting version details from GitHub...''"

text \<open>\<^verbatim>\<open>provider or FrontEndProvider(repo_owner, repo_name)\<close>; a dataclass instance is truthy.\<close>

definition provider_or :: "FrontEndProvider option \<Rightarrow> string \<Rightarrow> string \<Rightarrow> FrontEndProvider" where
  "provider_or provider repo_owner repo_name =
     (case provider of Some q \<Rightarrow> q | None \<Rightarrow> \<lparr>owner = repo_owner, repo = repo_name\<rparr>)"

definition init_frontend_unsafe ::
  "env \<Rightarrow> world \<Rightarrow> string \<Rightarrow> FrontEndProvider option \<Rightarrow> state \<Rightarrow> ((error + string) \<times> state) option" where
  "init_frontend_unsafe ev w version_string provider st =
     (if version_string = DEFAULT_VERSION_STRING ev then Some (Inr (DEFAULT_FRONTEND_PATH ev), st)
      else
        (case parse_version_string version_string of
           Inl e \<Rightarrow> Some (Inl e, st)
         | Inr (repo_owner, repo_name, version) \<Rightarrow>
             if startswith version ''v''
                \<and> exists_path (fs st) (expected_path_of ev repo_owner repo_name version)
             then
               Some (Inr (expected_path_of ev repo_owner repo_name version),
                     info (existing_copy_msg repo_owner repo_name version) st)
             else
               (let st1 = info (initializing_msg repo_owner repo_name version) st;
                    p = provider_or provider repo_owner repo_name
                in
                  (case get_release w p version st1 of
                     None \<Rightarrow> None
                   | Some (Inl e, st2) \<Rightarrow> Some (Inl e, st2)
                   | Some (Inr rel, st2) \<Rightarrow>
                       if \<not> exists_path (fs st2) (web_root_of ev p rel) then
                         (case download_step w p rel (web_root_of ev p rel) st2 of
                            (Inl e, st3) \<Rightarrow> Some (Inl e, st3)
                          | (Inr _, st3) \<Rightarrow> Some (Inr (web_root_of ev p rel), st3))
                       else Some (Inr (web_root_of ev p rel), st2)))))"


section \<open>Vocabulary of the properties and sample inputs\<close>

text \<open>An asset that carries a name other than \<^verbatim>\<open>dist.zip\<close>: the scan passes over it.\<close>

definition named_otherwise :: "asset \<Rightarrow> bool" where
  "named_otherwise a = (case map_of a ''name'' of None \<Rightarrow> False | Some n \<Rightarrow> n \<noteq> ''dist.zip'')"

definition mk_release :: "string \<Rightarrow> asset list option \<Rightarrow> release" where
  "mk_release tag xs =
     \<lparr>release_id = 7, tag_name = tag, release_name = tag, prerelease = False,
      created_at = ''2024-05-01T00:00:00Z'', published_at = ''2024-05-02T00:00:00Z'',
      release_body = [], assets = xs\<rparr>"

definition offline :: world where
  "offline = \<lparr>http_get = (\<lambda>rq. Inl (ConnectionError ''unreachable''))\<rparr>"

definition blank :: state where
  "blank = \<lparr>fs = Map.empty, sent = [], logged = []\<rparr>"

definition posix_env :: env where
  "posix_env =
     \<lparr>DEFAULT_VERSION_STRING = ''comfyanonymous/ComfyUI@latest'',
      DEFAULT_FRONTEND_PATH = ''/pkg/comfyui_frontend_package/static'',
      CUSTOM_FRONTENDS_ROOT = ''/comfy/web_custom_versions'',
      joinpath = (\<lambda>root parts. root @ concat (map (\<lambda>part. ''/'' @ part) parts))\<rparr>"

text \<open>
  A walk through the pages of a listing: the URLs requested with the release array each
  answered, and how the walk ends. \<open>walks w u pages e\<close> reads the walk off the world:
  every listed page is a success whose \<^verbatim>\<open>next\<close> link is the URL of the page after it;
  the walk ends at a page without a link (\<open>LastPage\<close>) or at a URL whose response
  \<^verbatim>\<open>raise_for_status\<close> rejects (\<open>Fails\<close>, with that URL and status).
\<close>

datatype walk_end = LastPage | Fails string nat

fun walks :: "world \<Rightarrow> string \<Rightarrow> (string \<times> release list) list \<Rightarrow> walk_end \<Rightarrow> bool" where
  "walks w u [] e =
     (case e of
        LastPage \<Rightarrow> False
      | Fails u' code \<Rightarrow>
          u' = u \<and> u \<noteq> [] \<and>
          (case http_get w (plain_get u) of
             Inl _ \<Rightarrow> False
           | Inr resp \<Rightarrow> raise_for_status resp = Inl (HTTPError code)))"
| "walks w u ((u0, page) # rest) e =
     (u0 = u \<and> u \<noteq> [] \<and>
      (case http_get w (plain_get u) of
         Inl _ \<Rightarrow> False
       | Inr resp \<Rightarrow>
           raise_for_status resp = Inr () \<and> content resp = ReleaseArray page \<and>
           (case next_link resp of
              None \<Rightarrow> rest = [] \<and> e = LastPage
            | Some u1 \<Rightarrow> if u1 = [] then rest = [] \<and> e = LastPage else walks w u1 rest e)))"

definition walk_result :: "release list \<Rightarrow> (string \<times> release list) list \<Rightarrow> walk_end \<Rightarrow> error + release list" where
  "walk_result acc pages e =
     (case e of
        LastPage \<Rightarrow> Inr (acc @ concat (map snd pages))
      | Fails u code \<Rightarrow> Inl (HTTPError code))"

definition walk_requests :: "(string \<times> release list) list \<Rightarrow> walk_end \<Rightarrow> request list" where
  "walk_requests pages e =
     map plain_get (map fst pages @ (case e of LastPage \<Rightarrow> [] | Fails u code \<Rightarrow> [u]))"

text \<open>
  A sample server. It lists the releases of \<^verbatim>\<open>acme/widgets\<close> on three pages, names
  \<^verbatim>\<open>v1.2.4\<close> as the latest, serves two archives, names a release tagged \<^verbatim>\<open>vv2.0.0\<close> as
  the latest of \<^verbatim>\<open>acme/vtool\<close>, lists \<^verbatim>\<open>acme/gadgets\<close> on two pages of which the second
  is a 500, and answers 404 to everything else.
\<close>

definition acme :: FrontEndProvider where
  "acme = \<lparr>owner = ''acme'', repo = ''widgets''\<rparr>"

definition gadgets :: FrontEndProvider where
  "gadgets = \<lparr>owner = ''acme'', repo = ''gadgets''\<rparr>"

definition dist_asset :: "string \<Rightarrow> asset" where
  "dist_asset u = [(''url'', u), (''name'', ''dist.zip'')]"

definition notes_asset :: asset where
  "notes_asset = [(''url'', ''https://h/notes''), (''name'', ''notes.txt'')]"

definition rel_124 :: release where
  "rel_124 = mk_release ''v1.2.4'' (Some [notes_asset, dist_asset ''https://h/dist124''])"

definition rel_123 :: release where
  "rel_123 = mk_release ''v1.2.3'' (Some [dist_asset ''https://h/dist123''])"

definition rel_123_plain :: release where
  "rel_123_plain = mk_release ''1.2.3'' None"

definition rel_100 :: release where
  "rel_100 = mk_release ''v1.0.0'' (Some [])"

definition rel_vv :: release where
  "rel_vv = mk_release ''vv2.0.0'' (Some [dist_asset ''https://h/dist124''])"

definition good_zip :: "zip_member list" where
  "good_zip = [Member ''index.html'' ''<html/>'', Member ''app.js'' ''run()'']"

definition reply :: "nat \<Rightarrow> string option \<Rightarrow> body \<Rightarrow> error + response" where
  "reply code nxt b = Inr \<lparr>status_code = code, next_link = nxt, content = b\<rparr>"

definition github :: world where
  "github = \<lparr>http_get = (\<lambda>rq.
     if url rq = ''https://api.github.com/repos/acme/widgets/releases'' then
       reply 200 (Some ''https://h/p2'') (ReleaseArray [rel_124])
     else if url rq = ''https://h/p2'' then
       reply 200 (Some ''https://h/p3'') (ReleaseArray [rel_123, rel_123_plain])
     else if url rq = ''https://h/p3'' then
       reply 200 None (ReleaseArray [rel_100])
     else if url rq = ''https://api.github.com/repos/acme/widgets/releases/latest'' then
       reply 200 None (ReleaseObject rel_124)
     else if url rq = ''https://h/dist124'' then
       reply 200 None (ZipArchive good_zip)
     else if url rq = ''https://h/dist123'' then
       reply 200 None (ZipArchive [Member ''index.html'' ''<html/>'', Unreadable])
     else if url rq = ''https://api.github.com/repos/acme/vtool/releases/latest'' then
       reply 200 None (ReleaseObject rel_vv)
     else if url rq = ''https://api.github.com/repos/acme/gadgets/releases'' then
       reply 200 (Some ''https://h/g2'') (ReleaseArray [rel_100])
     else if url rq = ''https://h/g2'' then
       reply 500 None OtherBytes
     else reply 404 None OtherBytes)\<rparr>"

text \<open>
  The strings a pattern without anchors and groups can consume, read off the pattern
  itself; \<open>plain\<close> says that a pattern is of that kind.
\<close>

fun plain :: "regex \<Rightarrow> bool" where
  "plain Bol = False"
| "plain Eol = False"
| "plain (Lit t) = True"
| "plain (Chars P lo hi) = True"
| "plain (Seq a b) = (plain a \<and> plain b)"
| "plain (Alt a b) = (plain a \<and> plain b)"
| "plain (Grp a) = False"

fun lang :: "regex \<Rightarrow> string \<Rightarrow> bool" where
  "lang Bol xs = False"
| "lang Eol xs = False"
| "lang (Lit t) xs = (xs = t)"
| "lang (Chars P lo hi) xs =
     (list_all P xs \<and> lo \<le> length xs \<and> (case hi of None \<Rightarrow> True | Some h \<Rightarrow> length xs \<le> h))"
| "lang (Seq a b) xs = (\<exists>ys zs. xs = ys @ zs \<and> lang a ys \<and> lang b zs)"
| "lang (Alt a b) xs = (lang a xs \<or> lang b xs)"
| "lang (Grp a) xs = lang a xs"

text \<open>
  The version pattern in the words of the specification: an owner of 1 to 39
  alphanumeric characters or hyphens that starts alphanumeric, a slash, a repository
  name of alphanumeric characters, underscores, dots and hyphens, an at sign, and a
  version that is \<^verbatim>\<open>latest\<close> or MAJOR.MINOR.PATCH with an optional \<^verbatim>\<open>v\<close> in front.
\<close>

definition digits :: "string \<Rightarrow> bool" where
  "digits d = (d \<noteq> [] \<and> list_all is_digit d)"

definition spec_owner :: "string \<Rightarrow> bool" where
  "spec_owner ow =
     (1 \<le> length ow \<and> length ow \<le> 39 \<and> list_all is_owner_char ow \<and> is_alnum (hd ow))"

definition spec_repo :: "string \<Rightarrow> bool" where
  "spec_repo rp = (rp \<noteq> [] \<and> list_all is_repo_char rp)"

definition spec_semver :: "string \<Rightarrow> bool" where
  "spec_semver v = (\<exists>a b c. digits a \<and> digits b \<and> digits c \<and> v = a @ ''.'' @ b @ ''.'' @ c)"

definition spec_version :: "string \<Rightarrow> bool" where
  "spec_version v = (v = ''latest'' \<or> spec_semver v \<or> (\<exists>v'. v = ''v'' @ v' \<and> spec_semver v'))"

definition matches_version_spec :: "string \<Rightarrow> string \<Rightarrow> string \<Rightarrow> string \<Rightarrow> bool" where
  "matches_version_spec v ow rp ver =
     (v = ow @ ''/'' @ rp @ ''@'' @ ver \<and> spec_owner ow \<and> spec_repo rp \<and> spec_version ver)"

text \<open>
  An archive whose members can all be read, and the entries of a directory after such
  members were written into it in order.
\<close>

definition readable :: "(string \<times> string) list \<Rightarrow> zip_member list" where
  "readable nxs = map (\<lambda>(n, x). Member n x) nxs"

definition written :: "(string \<times> string) list \<Rightarrow> (string \<times> string) list \<Rightarrow> (string \<times> string) list" where
  "written nxs es = fold (\<lambda>(n, x). AList.update n x) nxs es"


definition populated :: state where
  "populated =
     blank\<lparr>fs := [''/comfy/web_custom_versions/acme_widgets/2.0.0''
                    \<mapsto> Dir [(''index.html'', ''<html/>'')]]\<rparr>"

definition stale :: state where
  "stale = blank\<lparr>fs := [''/comfy/web_custom_versions/acme_widgets/2.0.0'' \<mapsto> Dir []]\<rparr>"

section \<open>The asset scan\<close>

lemma scan_assets_skip:
  "list_all named_otherwise pre \<Longrightarrow> scan_assets (pre @ rest) = scan_assets rest"
  by (induction pre) (auto simp: named_otherwise_def getitem_def split: option.splits)

text \<open>
  Claim C9. \<^verbatim>\<open>download_release_asset_zip\<close> reads \<^verbatim>\<open>asset["name"]\<close> of every asset it
  scans. When the scan reaches an asset without a \<^verbatim>\<open>name\<close> key before it has met an
  asset named \<^verbatim>\<open>dist.zip\<close>, the call raises \<open>KeyError\<close> for that key, not the
  "dist.zip not found" \<open>ValueError\<close>; nothing was requested or written.
\<close>

theorem missing_name_raises_key_error:
  assumes "assets rel = Some (pre @ a # post)"
    and "list_all named_otherwise pre"
    and "map_of a ''name'' = None"
  shows "download_release_asset_zip w rel dest st = (Inl (KeyError ''name''), st)"
  using assms
  by (simp add: download_release_asset_zip_def scan_assets_skip getitem_def)

theorem missing_name_raises_key_error_witness:
  "list_all named_otherwise [[(''name'', ''notes.txt''), (''url'', ''A'')]]
   \<and> map_of [(''url'', ''B'')] ''name'' = None
   \<and> download_release_asset_zip offline
        (mk_release ''v1.2.3''
           (Some ([[(''name'', ''notes.txt''), (''url'', ''A'')]]
                  @ [(''url'', ''B'')] # [[(''name'', ''dist.zip''), (''url'', ''C'')]])))
        ''/cache/a_b/1.2.3'' blank
       = (Inl (KeyError ''name''), blank)"
proof -
  have h1: "assets (mk_release ''v1.2.3''
           (Some ([[(''name'', ''notes.txt''), (''url'', ''A'')]]
                  @ [(''url'', ''B'')] # [[(''name'', ''dist.zip''), (''url'', ''C'')]])))
     = Some ([[(''name'', ''notes.txt''), (''url'', ''A'')]]
             @ [(''url'', ''B'')] # [[(''name'', ''dist.zip''), (''url'', ''C'')]])"
    by (simp add: mk_release_def)
  have h2: "list_all named_otherwise [[(''name'', ''notes.txt''), (''url'', ''A'')]]"
    by (simp add: named_otherwise_def)
  have h3: "map_of [(''url'', ''B'')] ''name'' = None"
    by simp
  show ?thesis
    using h2 h3 missing_name_raises_key_error [OF h1 h2 h3] by blast
qed

text \<open>
  Claim C10. The check after the scan is \<^verbatim>\<open>if not asset_url\<close>, which tests the recorded
  URL and not whether an asset was found. When the first asset named \<^verbatim>\<open>dist.zip\<close> has
  the empty string as its \<^verbatim>\<open>url\<close>, the call raises the "dist.zip not found"
  \<open>ValueError\<close>, and the state is the one it started from: no request was sent.
\<close>

theorem empty_url_is_asset_not_found:
  assumes "assets rel = Some (pre @ a # post)"
    and "list_all named_otherwise pre"
    and "map_of a ''name'' = Some ''dist.zip''"
    and "map_of a ''url'' = Some []"
  shows "download_release_asset_zip w rel dest st
         = (Inl (ValueError ''dist.zip not found in the release assets''), st)"
  using assms
  by (simp add: download_release_asset_zip_def scan_assets_skip getitem_def)

theorem empty_url_is_asset_not_found_witness:
  "list_all named_otherwise [[(''name'', ''notes.txt''), (''url'', ''A'')]]
   \<and> map_of [(''name'', ''dist.zip''), (''url'', [])] ''name'' = Some ''dist.zip''
   \<and> map_of [(''name'', ''dist.zip''), (''url'', [])] ''url'' = Some []
   \<and> download_release_asset_zip offline
        (mk_release ''v1.2.3''
           (Some ([[(''name'', ''notes.txt''), (''url'', ''A'')]]
                  @ [(''name'', ''dist.zip''), (''url'', [])] # [])))
        ''/cache/a_b/1.2.3'' blank
       = (Inl (ValueError ''dist.zip not found in the release assets''), blank)"
proof -
  have h1: "assets (mk_release ''v1.2.3''
           (Some ([[(''name'', ''notes.txt''), (''url'', ''A'')]]
                  @ [(''name'', ''dist.zip''), (''url'', [])] # [])))
     = Some ([[(''name'', ''notes.txt''), (''url'', ''A'')]]
             @ [(''name'', ''dist.zip''), (''url'', [])] # [])"
    by (simp add: mk_release_def)
  have h2: "list_all named_otherwise [[(''name'', ''notes.txt''), (''url'', ''A'')]]"
    by (simp add: named_otherwise_def)
  have h3: "map_of [(''name'', ''dist.zip''), (''url'', [])] ''name'' = Some ''dist.zip''"
    by simp
  have h4: "map_of [(''name'', ''dist.zip''), (''url'', [])] ''url'' = Some []"
    by simp
  show ?thesis
    using h2 h3 h4 empty_url_is_asset_not_found [OF h1 h2 h3 h4] by blast
qed

section \<open>Listing and resolving releases\<close>

lemma all_releases_loop_walk:
  "walks w u pages e \<Longrightarrow>
   all_releases_loop w (Some u) acc st
   = Some (walk_result acc pages e, st\<lparr>sent := sent st @ walk_requests pages e\<rparr>)"
proof (induction pages arbitrary: u acc st)
  case Nil
  then show ?case
    by (subst all_releases_loop.simps)
       (auto simp: requests_get_def walk_result_def walk_requests_def
             split: walk_end.splits sum.splits)
next
  case (Cons pg pages)
  obtain u0 page where pg: "pg = (u0, page)" by (cases pg)
  from Cons.prems pg obtain resp where
    u: "u0 = u" "u \<noteq> []" and
    g: "http_get w (plain_get u) = Inr resp" and
    ok: "raise_for_status resp = Inr ()" and
    c: "content resp = ReleaseArray page" and
    nx: "(case next_link resp of
              None \<Rightarrow> pages = [] \<and> e = LastPage
            | Some u1 \<Rightarrow> if u1 = [] then pages = [] \<and> e = LastPage else walks w u1 pages e)"
    by (auto split: sum.splits)
  show ?case
  proof (cases "next_link resp")
    case None
    with nx have "pages = []" "e = LastPage" by simp_all
    then show ?thesis using u g ok c None pg
      apply (subst all_releases_loop.simps)
      apply (simp add: requests_get_def json_releases_def)
      apply (subst all_releases_loop.simps)
      apply (simp add: walk_result_def walk_requests_def)
      done
  next
    case (Some u1)
    show ?thesis
    proof (cases "u1 = []")
      case True
      with nx Some have "pages = []" "e = LastPage" by simp_all
      then show ?thesis using u g ok c Some True pg
        apply (subst all_releases_loop.simps)
        apply (simp add: requests_get_def json_releases_def)
        apply (subst all_releases_loop.simps)
        apply (simp add: walk_result_def walk_requests_def)
        done
    next
      case False
      with nx Some have "walks w u1 pages e" by simp
      from Cons.IH [OF this] show ?thesis using u g ok c Some False pg
        apply (subst all_releases_loop.simps)
        apply (simp add: requests_get_def json_releases_def)
        apply (simp add: walk_result_def walk_requests_def split: walk_end.splits)
        done
    qed
  qed
qed

lemma scan_releases_find:
  "scan_releases rels version
   = (case find (\<lambda>r. tag_name r = version \<or> tag_name r = ''v'' @ version) rels of
        Some r \<Rightarrow> Inr r
      | None \<Rightarrow> Inl (ValueError (''Version '' @ version @ '' not found in releases'')))"
  by (induction rels) auto

lemma widgets_walk:
  "walks github (release_url acme)
     [(''https://api.github.com/repos/acme/widgets/releases'', [rel_124]),
      (''https://h/p2'', [rel_123, rel_123_plain]),
      (''https://h/p3'', [rel_100])] LastPage"
  by (simp add: github_def acme_def release_url_def plain_get_def reply_def raise_for_status_def)

lemma gadgets_walk:
  "walks github (release_url gadgets)
     [(''https://api.github.com/repos/acme/gadgets/releases'', [rel_100])]
     (Fails ''https://h/g2'' 500)"
  by (simp add: github_def gadgets_def release_url_def plain_get_def reply_def raise_for_status_def)

text \<open>
  Claim C5. \<^verbatim>\<open>all_releases\<close> requests the collection URL and then each \<^verbatim>\<open>next\<close> link
  in turn, once each. When the walk ends at a page without a link, the result is the
  concatenation of the pages' release arrays in the order of the walk. When a page
  answers with an error status (one that \<^verbatim>\<open>raise_for_status\<close> rejects, 400 to 599), the
  call raises \<open>HTTPError\<close> at that request: nothing is requested afterwards and the
  request is not repeated.
\<close>

theorem all_releases_follows_pages:
  assumes "walks w (release_url p) pages e"
  shows "all_releases w p st
         = Some (case e of
                   LastPage \<Rightarrow> Inr (concat (map snd pages))
                 | Fails u code \<Rightarrow> Inl (HTTPError code),
                 st\<lparr>sent := sent st
                    @ map plain_get (map fst pages @ (case e of LastPage \<Rightarrow> [] | Fails u code \<Rightarrow> [u]))\<rparr>)"
  using all_releases_loop_walk [OF assms, of "[]" st]
  by (cases e) (simp_all add: all_releases_def walk_result_def walk_requests_def)

theorem all_releases_follows_pages_witness:
  "walks github (release_url acme)
     [(''https://api.github.com/repos/acme/widgets/releases'', [rel_124]),
      (''https://h/p2'', [rel_123, rel_123_plain]),
      (''https://h/p3'', [rel_100])] LastPage
   \<and> all_releases github acme blank
       = Some (Inr [rel_124, rel_123, rel_123_plain, rel_100],
               blank\<lparr>sent := [plain_get ''https://api.github.com/repos/acme/widgets/releases'',
                               plain_get ''https://h/p2'', plain_get ''https://h/p3'']\<rparr>)
   \<and> walks github (release_url gadgets)
       [(''https://api.github.com/repos/acme/gadgets/releases'', [rel_100])]
       (Fails ''https://h/g2'' 500)
   \<and> all_releases github gadgets blank
       = Some (Inl (HTTPError 500),
               blank\<lparr>sent := [plain_get ''https://api.github.com/repos/acme/gadgets/releases'',
                               plain_get ''https://h/g2'']\<rparr>)"
  using all_releases_follows_pages [OF widgets_walk, of blank]
        all_releases_follows_pages [OF gadgets_walk, of blank]
        widgets_walk gadgets_walk
  by (simp add: blank_def)

text \<open>
  Claim C4. For the version \<^verbatim>\<open>latest\<close>, \<^verbatim>\<open>get_release\<close> is the answer of the
  latest-release endpoint: the one request sent is the one to that endpoint, so the
  release list is not fetched, and a successful answer holding a release is returned.
  For any other version, once the release list is there, the result is the first
  release of the list, in its order, whose \<^verbatim>\<open>tag_name\<close> is the version or \<^verbatim>\<open>v\<close> followed
  by the version; when there is none, the call raises the \<open>ValueError\<close> that names the
  requested version.
\<close>

theorem get_release_resolves:
  "(version = ''latest'' \<longrightarrow>
      get_release w p version st = Some (latest_release w p st)
      \<and> sent (snd (latest_release w p st)) = sent st @ [plain_get (release_url p @ ''/latest'')]
      \<and> (\<forall>resp rel.
           http_get w (plain_get (release_url p @ ''/latest'')) = Inr resp
           \<and> raise_for_status resp = Inr () \<and> content resp = ReleaseObject rel
           \<longrightarrow> fst (latest_release w p st) = Inr rel))
   \<and> (version \<noteq> ''latest'' \<longrightarrow>
        (\<forall>rels st1. all_releases w p st = Some (Inr rels, st1) \<longrightarrow>
           get_release w p version st
           = Some (case find (\<lambda>r. tag_name r = version \<or> tag_name r = ''v'' @ version) rels of
                     Some r \<Rightarrow> Inr r
                   | None \<Rightarrow> Inl (ValueError (''Version '' @ version @ '' not found in releases'')),
                   st1)))"
  by (auto simp: get_release_def latest_release_def requests_get_def json_release_def
                 scan_releases_find
           split: sum.splits)

lemma widgets_releases:
  "all_releases github acme blank
       = Some (Inr [rel_124, rel_123, rel_123_plain, rel_100],
               blank\<lparr>sent := [plain_get ''https://api.github.com/repos/acme/widgets/releases'',
                               plain_get ''https://h/p2'', plain_get ''https://h/p3'']\<rparr>)"
  using all_releases_loop_walk [OF widgets_walk, of "[]" blank]
  by (simp add: all_releases_def walk_result_def walk_requests_def blank_def)

theorem get_release_resolves_witness:
  "get_release github acme ''1.2.3'' blank
     = Some (Inr rel_123,
             blank\<lparr>sent := [plain_get ''https://api.github.com/repos/acme/widgets/releases'',
                             plain_get ''https://h/p2'', plain_get ''https://h/p3'']\<rparr>)
   \<and> get_release github acme ''1.2.5'' blank
     = Some (Inl (ValueError ''Version 1.2.5 not found in releases''),
             blank\<lparr>sent := [plain_get ''https://api.github.com/repos/acme/widgets/releases'',
                             plain_get ''https://h/p2'', plain_get ''https://h/p3'']\<rparr>)
   \<and> get_release github acme ''latest'' blank
     = Some (Inr rel_124,
             blank\<lparr>sent := [plain_get ''https://api.github.com/repos/acme/widgets/releases/latest'']\<rparr>)"
proof -
  have a: "(''1.2.3'' :: string) \<noteq> ''latest''" "(''1.2.5'' :: string) \<noteq> ''latest''" by simp_all
  have t: "tag_name rel_124 = ''v1.2.4''" "tag_name rel_123 = ''v1.2.3''"
    "tag_name rel_123_plain = ''1.2.3''" "tag_name rel_100 = ''v1.0.0''"
    by (simp_all add: rel_124_def rel_123_def rel_123_plain_def rel_100_def mk_release_def)
  have l: "latest_release github acme blank
     = (Inr rel_124,
             blank\<lparr>sent := [plain_get ''https://api.github.com/repos/acme/widgets/releases/latest'']\<rparr>)"
    by (simp add: latest_release_def requests_get_def github_def acme_def release_url_def
          plain_get_def reply_def raise_for_status_def json_release_def blank_def)
  show ?thesis
    using get_release_resolves [of "''1.2.3''" github acme blank]
          get_release_resolves [of "''1.2.5''" github acme blank]
          get_release_resolves [of "''latest''" github acme blank]
          widgets_releases a l
    by (simp add: t)
qed

section \<open>Parsing the version string\<close>

lemma in_run_Bol: "x \<in> set (run Bol (k, s, gs)) \<longleftrightarrow> k = 0 \<and> x = (k, s, gs)"
  by auto

lemma in_run_Eol:
  "x \<in> set (run Eol (k, s, gs)) \<longleftrightarrow> (s = [] \<or> s = [CHR 0x0A]) \<and> x = (k, s, gs)"
  by auto

lemma take_drop_split: "take n s = t \<Longrightarrow> s = t @ drop n s"
  by (metis append_take_drop_id)

lemma in_run_Lit:
  "(k', s', gs') \<in> set (run (Lit t) (k, s, gs)) \<longleftrightarrow> s = t @ s' \<and> k' = k + length t \<and> gs' = gs"
  by (auto dest: take_drop_split)

lemma take_within_takeWhile:
  assumes "j \<le> length (takeWhile P s)"
  shows "list_all P (take j s)"
proof -
  have "take j (takeWhile P s @ dropWhile P s)
        = take j (takeWhile P s) @ take (j - length (takeWhile P s)) (dropWhile P s)"
    by (rule take_append)
  then have "take j s = take j (takeWhile P s)" using assms by simp
  then have "set (take j s) \<subseteq> set (takeWhile P s)"
    by (simp add: set_take_subset)
  then show ?thesis
    by (auto simp: list_all_iff dest: set_takeWhileD)
qed

lemma prefix_within_takeWhile:
  assumes "list_all P xs"
  shows "length xs \<le> length (takeWhile P (xs @ ys))"
proof -
  have "takeWhile P (xs @ ys) = xs @ takeWhile P ys"
    using assms by (intro takeWhile_append2) (simp add: list_all_iff)
  then show ?thesis by simp
qed

lemma in_run_Chars:
  "(k', s', gs') \<in> set (run (Chars P lo hi) (k, s, gs)) \<longleftrightarrow>
     (\<exists>xs. s = xs @ s' \<and> list_all P xs \<and> lo \<le> length xs
           \<and> (case hi of None \<Rightarrow> True | Some h \<Rightarrow> length xs \<le> h)
           \<and> k' = k + length xs \<and> gs' = gs)"
  (is "?L \<longleftrightarrow> ?R")
proof
  define m where "m = (case hi of None \<Rightarrow> length (takeWhile P s)
                              | Some h \<Rightarrow> min (length (takeWhile P s)) h)"
  have img: "set (run (Chars P lo hi) (k, s, gs)) = (\<lambda>j. (k + j, drop j s, gs)) ` {lo..m}"
    by (simp del: upt_Suc add: m_def Let_def atLeastLessThanSuc_atLeastAtMost)
  assume ?L
  then obtain j0 where j0: "j0 \<in> {lo..m}" "(k', s', gs') = (k + j0, drop j0 s, gs)"
    unfolding img by blast
  then have j: "lo \<le> j0" "j0 \<le> length (takeWhile P s)"
      "case hi of None \<Rightarrow> True | Some h \<Rightarrow> j0 \<le> h"
      "k' = k + j0" "s' = drop j0 s" "gs' = gs"
    by (auto simp: m_def split: option.splits)
  define j where "j = j0"
  note j = j [folded j_def]
  have len: "j \<le> length s"
    using j(2) length_takeWhile_le [of P s] by linarith
  have "s = take j s @ s'" using j(5) by simp
  moreover have "list_all P (take j s)" using j(2) by (rule take_within_takeWhile)
  moreover have "length (take j s) = j" using len by simp
  ultimately show ?R using j by (intro exI [of _ "take j s"]) (simp split: option.splits)
next
  assume ?R
  then obtain xs where xs: "s = xs @ s'" "list_all P xs" "lo \<le> length xs"
      "case hi of None \<Rightarrow> True | Some h \<Rightarrow> length xs \<le> h"
      "k' = k + length xs" "gs' = gs"
    by blast
  have "length xs \<le> length (takeWhile P s)"
    using xs(1,2) prefix_within_takeWhile by blast
  moreover have "drop (length xs) s = s'" using xs(1) by simp
  ultimately show ?L using xs
    by (cases hi) (auto simp: Let_def image_iff intro!: bexI [of _ "length xs"])
qed

lemma in_run_Seq:
  "x \<in> set (run (Seq a b) st) \<longleftrightarrow> (\<exists>m. m \<in> set (run a st) \<and> x \<in> set (run b m))"
  by auto

lemma in_run_Alt:
  "x \<in> set (run (Alt a b) st) \<longleftrightarrow> x \<in> set (run a st) \<or> x \<in> set (run b st)"
  by auto

lemma in_run_Grp:
  "(k', s', gs') \<in> set (run (Grp a) (k, s, gs)) \<longleftrightarrow>
     (\<exists>gs0. (k', s', gs0) \<in> set (run a (k, s, gs)) \<and> gs' = gs0 @ [take (k' - k) s])"
  by force


lemma run_plain:
  "plain r \<Longrightarrow>
   (k', s', gs') \<in> set (run r (k, s, gs)) \<longleftrightarrow>
     (\<exists>xs. s = xs @ s' \<and> lang r xs \<and> k' = k + length xs \<and> gs' = gs)"
proof (induction r arbitrary: k s gs k' s' gs')
  case (Seq a b)
  then have pa: "plain a" and pb: "plain b" by simp_all
  show ?case
  proof
    assume "(k', s', gs') \<in> set (run (Seq a b) (k, s, gs))"
    then obtain k1 s1 gs1 where
      m: "(k1, s1, gs1) \<in> set (run a (k, s, gs))" "(k', s', gs') \<in> set (run b (k1, s1, gs1))"
      by auto
    from m(1) Seq.IH(1) [OF pa] obtain ys where
      ys: "s = ys @ s1" "lang a ys" "k1 = k + length ys" "gs1 = gs" by blast
    from m(2) Seq.IH(2) [OF pb] obtain zs where
      zs: "s1 = zs @ s'" "lang b zs" "k' = k1 + length zs" "gs' = gs1" by blast
    show "\<exists>xs. s = xs @ s' \<and> lang (Seq a b) xs \<and> k' = k + length xs \<and> gs' = gs"
      using ys zs by (intro exI [of _ "ys @ zs"]) auto
  next
    assume "\<exists>xs. s = xs @ s' \<and> lang (Seq a b) xs \<and> k' = k + length xs \<and> gs' = gs"
    then obtain ys zs where
      x: "s = (ys @ zs) @ s'" "lang a ys" "lang b zs" "k' = k + length (ys @ zs)" "gs' = gs"
      by auto
    have "(k + length ys, zs @ s', gs) \<in> set (run a (k, s, gs))"
      using Seq.IH(1) [OF pa] x by auto
    moreover have "(k', s', gs') \<in> set (run b (k + length ys, zs @ s', gs))"
      using Seq.IH(2) [OF pb] x by auto
    ultimately show "(k', s', gs') \<in> set (run (Seq a b) (k, s, gs))"
      by (subst in_run_Seq) blast
  qed
next
  case (Alt a b)
  then show ?case by (auto simp del: run.simps simp: in_run_Alt)
next
  case (Lit t)
  show ?case by (subst in_run_Lit) auto
next
  case (Chars P lo hi)
  show ?case by (subst in_run_Chars) auto
qed simp_all

lemma run_Grp_plain:
  assumes "plain r"
  shows "(k', s', gs') \<in> set (run (Grp r) (k, s, gs)) \<longleftrightarrow>
     (\<exists>xs. s = xs @ s' \<and> lang r xs \<and> k' = k + length xs \<and> gs' = gs @ [xs])"
  by (subst in_run_Grp, subst run_plain [OF assms]) auto


lemma plain_parts: "plain OWNER_RE" "plain REPO_RE" "plain VERSION_RE"
  by (simp_all add: OWNER_RE_def REPO_RE_def VERSION_RE_def SEMVER_RE_def)

lemma run_VERSION_PATTERN:
  "(k', s', gs') \<in> set (run VERSION_PATTERN (0, v, [])) \<longleftrightarrow>
     (\<exists>ow rp ver. v = ow @ ''/'' @ rp @ ''@'' @ ver @ s'
        \<and> lang OWNER_RE ow \<and> lang REPO_RE rp \<and> lang VERSION_RE ver
        \<and> (s' = [] \<or> s' = [CHR 0x0A])
        \<and> gs' = [ow, rp, ver] \<and> k' = length v - length s')"
  unfolding VERSION_PATTERN_def
  by (simp only: in_run_Seq split_paired_Ex in_run_Bol in_run_Eol in_run_Lit
        run_Grp_plain [OF plain_parts(1)] run_Grp_plain [OF plain_parts(2)]
        run_Grp_plain [OF plain_parts(3)])
     auto


lemma alnum_is_owner_char: "is_alnum c \<Longrightarrow> is_owner_char c"
  by (simp add: is_owner_char_def)

lemma lang_OWNER_RE: "lang OWNER_RE ow \<longleftrightarrow> spec_owner ow"
proof
  assume "lang OWNER_RE ow"
  then obtain ys zs where x: "ow = ys @ zs" "list_all is_alnum ys" "length ys = 1"
      "list_all is_owner_char zs" "length zs \<le> 38"
    by (auto simp: OWNER_RE_def)
  from x(3) obtain c where c: "ys = [c]" by (cases ys) auto
  with x show "spec_owner ow"
    by (simp add: spec_owner_def alnum_is_owner_char)
next
  assume "spec_owner ow"
  then obtain c zs where x: "ow = c # zs" "is_alnum c" "list_all is_owner_char zs" "length zs \<le> 38"
    by (cases ow) (auto simp: spec_owner_def)
  then have "ow = [c] @ zs \<and> lang (Chars is_alnum 1 (Some 1)) [c]
             \<and> lang (Chars is_owner_char 0 (Some 38)) zs"
    by simp
  then show "lang OWNER_RE ow"
    unfolding OWNER_RE_def lang.simps(5) by blast
qed

lemma lang_REPO_RE: "lang REPO_RE rp \<longleftrightarrow> spec_repo rp"
  by (cases rp) (auto simp: REPO_RE_def spec_repo_def)

lemma lang_digits: "lang (Chars is_digit 1 None) d \<longleftrightarrow> digits d"
  by (cases d) (auto simp: digits_def)

lemma lang_opt_v: "lang (Chars (\<lambda>c. c = CHR ''v'') 0 (Some 1)) p \<longleftrightarrow> p = [] \<or> p = ''v''"
proof (cases p)
  case Nil
  then show ?thesis by simp
next
  case (Cons c cs)
  then show ?thesis by (cases cs) auto
qed

lemma lang_three:
  "lang (Seq (Chars is_digit 1 None) (Seq (Lit ''.'')
        (Seq (Chars is_digit 1 None) (Seq (Lit ''.'') (Chars is_digit 1 None))))) y
   \<longleftrightarrow> spec_semver y"
proof
  assume "lang (Seq (Chars is_digit 1 None) (Seq (Lit ''.'')
        (Seq (Chars is_digit 1 None) (Seq (Lit ''.'') (Chars is_digit 1 None))))) y"
  then obtain a r1 where 1: "y = a @ r1" "lang (Chars is_digit 1 None) a"
      "lang (Seq (Lit ''.'') (Seq (Chars is_digit 1 None) (Seq (Lit ''.'') (Chars is_digit 1 None)))) r1"
    unfolding lang.simps(5) [of "Chars is_digit 1 None"] by blast
  from 1(3) obtain r2 where 2: "r1 = ''.'' @ r2"
      "lang (Seq (Chars is_digit 1 None) (Seq (Lit ''.'') (Chars is_digit 1 None))) r2"
    unfolding lang.simps(5) [of "Lit ''.''"] lang.simps(3) by blast
  from 2(2) obtain b r3 where 3: "r2 = b @ r3" "lang (Chars is_digit 1 None) b"
      "lang (Seq (Lit ''.'') (Chars is_digit 1 None)) r3"
    unfolding lang.simps(5) [of "Chars is_digit 1 None"] by blast
  from 3(3) obtain c where 4: "r3 = ''.'' @ c" "lang (Chars is_digit 1 None) c"
    unfolding lang.simps(5) [of "Lit ''.''"] lang.simps(3) by blast
  have "y = a @ ''.'' @ b @ ''.'' @ c" using 1(1) 2(1) 3(1) 4(1) by simp
  then show "spec_semver y"
    unfolding spec_semver_def using 1(2) 3(2) 4(2) lang_digits by blast
next
  assume "spec_semver y"
  then obtain a b c where x: "digits a" "digits b" "digits c" "y = a @ ''.'' @ b @ ''.'' @ c"
    unfolding spec_semver_def by blast
  have 4: "lang (Seq (Lit ''.'') (Chars is_digit 1 None)) (''.'' @ c)"
    unfolding lang.simps(5) lang.simps(3) using x(3) lang_digits by blast
  have 3: "lang (Seq (Chars is_digit 1 None) (Seq (Lit ''.'') (Chars is_digit 1 None))) (b @ ''.'' @ c)"
    unfolding lang.simps(5) [of "Chars is_digit 1 None"] using 4 x(2) lang_digits by blast
  have 2: "lang (Seq (Lit ''.'') (Seq (Chars is_digit 1 None) (Seq (Lit ''.'') (Chars is_digit 1 None))))
             (''.'' @ b @ ''.'' @ c)"
    unfolding lang.simps(5) [of "Lit ''.''"] lang.simps(3) using 3 by blast
  show "lang (Seq (Chars is_digit 1 None) (Seq (Lit ''.'')
        (Seq (Chars is_digit 1 None) (Seq (Lit ''.'') (Chars is_digit 1 None))))) y"
    unfolding lang.simps(5) [of "Chars is_digit 1 None"] x(4) using 2 x(1) lang_digits by blast
qed

lemma lang_SEMVER_RE:
  "lang SEMVER_RE x \<longleftrightarrow> spec_semver x \<or> (\<exists>x'. x = ''v'' @ x' \<and> spec_semver x')"
proof -
  have "lang SEMVER_RE x \<longleftrightarrow> (\<exists>p y. x = p @ y \<and> (p = [] \<or> p = ''v'') \<and> spec_semver y)"
    unfolding SEMVER_RE_def lang.simps(5) [of "Chars (\<lambda>c. c = CHR ''v'') 0 (Some 1)"]
      lang_three lang_opt_v ..
  also have "\<dots> \<longleftrightarrow> spec_semver x \<or> (\<exists>x'. x = ''v'' @ x' \<and> spec_semver x')"
  proof
    assume "\<exists>p y. x = p @ y \<and> (p = [] \<or> p = ''v'') \<and> spec_semver y"
    then obtain p y where "x = p @ y" "p = [] \<or> p = ''v''" "spec_semver y" by blast
    then show "spec_semver x \<or> (\<exists>x'. x = ''v'' @ x' \<and> spec_semver x')" by auto
  next
    assume "spec_semver x \<or> (\<exists>x'. x = ''v'' @ x' \<and> spec_semver x')"
    then show "\<exists>p y. x = p @ y \<and> (p = [] \<or> p = ''v'') \<and> spec_semver y"
    proof
      assume "spec_semver x"
      then have "x = [] @ x \<and> ([] = [] \<or> [] = ''v'') \<and> spec_semver x" by simp
      then show ?thesis by blast
    next
      assume "\<exists>x'. x = ''v'' @ x' \<and> spec_semver x'"
      then show ?thesis by blast
    qed
  qed
  finally show ?thesis .
qed

lemma lang_VERSION_RE: "lang VERSION_RE ver \<longleftrightarrow> spec_version ver"
  unfolding VERSION_RE_def lang.simps(6) lang_SEMVER_RE spec_version_def lang.simps(3)
  by blast


lemma split_at_unique:
  assumes "y \<notin> set xs" "y \<notin> set xs'" "xs @ y # r = xs' @ y # r'"
  shows "xs = xs' \<and> r = r'"
proof -
  have "takeWhile (\<lambda>c. c \<noteq> y) (xs @ y # r) = xs" "takeWhile (\<lambda>c. c \<noteq> y) (xs' @ y # r') = xs'"
    using assms(1,2) by (auto simp: takeWhile_tail)
  then have "xs = xs'" using assms(3) by simp
  then show ?thesis using assms(3) by simp
qed

lemma no_slash_in_owner: "spec_owner ow \<Longrightarrow> CHR ''/'' \<notin> set ow"
  by (auto simp: spec_owner_def list_all_iff is_owner_char_def is_alnum_def is_digit_def)

lemma no_at_in_repo: "spec_repo rp \<Longrightarrow> CHR ''@'' \<notin> set rp"
  by (auto simp: spec_repo_def list_all_iff is_repo_char_def is_alnum_def is_digit_def)

lemma no_newline_in_digits: "digits d \<Longrightarrow> CHR 0x0A \<notin> set d"
  by (auto simp: digits_def list_all_iff is_digit_def)

lemma no_newline_in_semver: "spec_semver x \<Longrightarrow> CHR 0x0A \<notin> set x"
  by (auto simp: spec_semver_def dest: no_newline_in_digits)

lemma no_newline_in_version: "spec_version ver \<Longrightarrow> CHR 0x0A \<notin> set ver"
  by (auto simp: spec_version_def dest: no_newline_in_semver)

lemma tail_unique:
  assumes "CHR 0x0A \<notin> set x" "CHR 0x0A \<notin> set x'"
    and "s = [] \<or> s = [CHR 0x0A]" "s' = [] \<or> s' = [CHR 0x0A]"
    and "x @ s = x' @ s'"
  shows "x = x' \<and> s = s'"
proof -
  have "takeWhile (\<lambda>c. c \<noteq> CHR 0x0A) (x @ s) = x"
    using assms(1,3) by (auto simp: takeWhile_tail)
  moreover have "takeWhile (\<lambda>c. c \<noteq> CHR 0x0A) (x' @ s') = x'"
    using assms(2,4) by (auto simp: takeWhile_tail)
  ultimately have "x = x'" using assms(5) by simp
  then show ?thesis using assms(5) by simp
qed

lemma decomposition_unique:
  assumes "ow @ ''/'' @ rp @ ''@'' @ ver @ s = ow' @ ''/'' @ rp' @ ''@'' @ ver' @ s'"
    and "spec_owner ow" "spec_repo rp" "spec_version ver" "s = [] \<or> s = [CHR 0x0A]"
    and "spec_owner ow'" "spec_repo rp'" "spec_version ver'" "s' = [] \<or> s' = [CHR 0x0A]"
  shows "ow = ow' \<and> rp = rp' \<and> ver = ver' \<and> s = s'"
proof -
  have 1: "ow = ow' \<and> rp @ ''@'' @ ver @ s = rp' @ ''@'' @ ver' @ s'"
    using assms(1) no_slash_in_owner [OF assms(2)] no_slash_in_owner [OF assms(6)]
    by (intro split_at_unique [of "CHR ''/''"]) simp_all
  then have 2: "rp = rp' \<and> ver @ s = ver' @ s'"
    using no_at_in_repo [OF assms(3)] no_at_in_repo [OF assms(7)]
    by (intro split_at_unique [of "CHR ''@''"]) simp_all
  then have "ver = ver' \<and> s = s'"
    using no_newline_in_version [OF assms(4)] no_newline_in_version [OF assms(8)] assms(5,9)
    by (intro tail_unique) simp_all
  with 1 2 show ?thesis by simp
qed

lemma run_VERSION_PATTERN_spec:
  "(k', s', gs') \<in> set (run VERSION_PATTERN (0, v, [])) \<longleftrightarrow>
     (\<exists>ow rp ver. v = ow @ ''/'' @ rp @ ''@'' @ ver @ s'
        \<and> spec_owner ow \<and> spec_repo rp \<and> spec_version ver
        \<and> (s' = [] \<or> s' = [CHR 0x0A])
        \<and> gs' = [ow, rp, ver] \<and> k' = length v - length s')"
  unfolding run_VERSION_PATTERN lang_OWNER_RE lang_REPO_RE lang_VERSION_RE ..

lemma parse_version_string_Inr:
  "parse_version_string v = Inr (ow, rp, ver) \<longleftrightarrow>
     (\<exists>s. v = ow @ ''/'' @ rp @ ''@'' @ ver @ s \<and> (s = [] \<or> s = [CHR 0x0A])
          \<and> spec_owner ow \<and> spec_repo rp \<and> spec_version ver)"
proof (cases "run VERSION_PATTERN (0, v, [])")
  case Nil
  then have "parse_version_string v \<noteq> Inr (ow, rp, ver)"
    by (simp add: parse_version_string_def re_match_def)
  moreover have "\<not> (\<exists>s. v = ow @ ''/'' @ rp @ ''@'' @ ver @ s \<and> (s = [] \<or> s = [CHR 0x0A])
          \<and> spec_owner ow \<and> spec_repo rp \<and> spec_version ver)"
  proof
    assume "\<exists>s. v = ow @ ''/'' @ rp @ ''@'' @ ver @ s \<and> (s = [] \<or> s = [CHR 0x0A])
          \<and> spec_owner ow \<and> spec_repo rp \<and> spec_version ver"
    then obtain s where "v = ow @ ''/'' @ rp @ ''@'' @ ver @ s" "s = [] \<or> s = [CHR 0x0A]"
      "spec_owner ow" "spec_repo rp" "spec_version ver" by blast
    then have "(length v - length s, s, [ow, rp, ver]) \<in> set (run VERSION_PATTERN (0, v, []))"
      unfolding run_VERSION_PATTERN_spec by blast
    with Nil show False by simp
  qed
  ultimately show ?thesis by blast
next
  case (Cons m ms)
  obtain k0 s0 gs0 where m: "m = (k0, s0, gs0)" by (cases m)
  have "(k0, s0, gs0) \<in> set (run VERSION_PATTERN (0, v, []))" using Cons m by simp
  then obtain ow0 rp0 ver0 where
    d: "v = ow0 @ ''/'' @ rp0 @ ''@'' @ ver0 @ s0" "spec_owner ow0" "spec_repo rp0"
       "spec_version ver0" "s0 = [] \<or> s0 = [CHR 0x0A]" "gs0 = [ow0, rp0, ver0]"
    unfolding run_VERSION_PATTERN_spec by blast
  have p: "parse_version_string v = Inr (ow0, rp0, ver0)"
    using Cons m d(6) by (simp add: parse_version_string_def re_match_def)
  show ?thesis
  proof
    assume "parse_version_string v = Inr (ow, rp, ver)"
    with p have "ow = ow0" "rp = rp0" "ver = ver0" by simp_all
    with d show "\<exists>s. v = ow @ ''/'' @ rp @ ''@'' @ ver @ s \<and> (s = [] \<or> s = [CHR 0x0A])
          \<and> spec_owner ow \<and> spec_repo rp \<and> spec_version ver" by blast
  next
    assume "\<exists>s. v = ow @ ''/'' @ rp @ ''@'' @ ver @ s \<and> (s = [] \<or> s = [CHR 0x0A])
          \<and> spec_owner ow \<and> spec_repo rp \<and> spec_version ver"
    then obtain s where e: "v = ow @ ''/'' @ rp @ ''@'' @ ver @ s" "s = [] \<or> s = [CHR 0x0A]"
      "spec_owner ow" "spec_repo rp" "spec_version ver" by blast
    have "ow0 = ow \<and> rp0 = rp \<and> ver0 = ver \<and> s0 = s"
      using d(1) e(1) by (intro decomposition_unique d e) simp
    with p show "parse_version_string v = Inr (ow, rp, ver)" by simp
  qed
qed

lemma parse_version_string_total:
  "(\<exists>ow rp ver. parse_version_string v = Inr (ow, rp, ver))
   \<or> parse_version_string v = Inl (ArgumentTypeError (''Invalid version string: '' @ v))"
proof (cases "run VERSION_PATTERN (0, v, [])")
  case Nil
  then show ?thesis by (simp add: parse_version_string_def re_match_def)
next
  case (Cons m ms)
  obtain k0 s0 gs0 where m: "m = (k0, s0, gs0)" by (cases m)
  have "(k0, s0, gs0) \<in> set (run VERSION_PATTERN (0, v, []))" using Cons m by simp
  then obtain ow0 rp0 ver0 where "gs0 = [ow0, rp0, ver0]"
    unfolding run_VERSION_PATTERN_spec by blast
  then show ?thesis using Cons m by (simp add: parse_version_string_def re_match_def)
qed

lemma parse_version_string_refines:
  "parse_version_string v = Inr (ow, rp, ver) \<longleftrightarrow>
     matches_version_spec v ow rp ver
     \<or> (\<exists>v0. v = v0 @ [CHR 0x0A] \<and> matches_version_spec v0 ow rp ver)"
proof -
  have "(\<exists>s. v = ow @ ''/'' @ rp @ ''@'' @ ver @ s \<and> (s = [] \<or> s = [CHR 0x0A]))
        \<longleftrightarrow> v = ow @ ''/'' @ rp @ ''@'' @ ver
            \<or> (\<exists>v0. v = v0 @ [CHR 0x0A] \<and> v0 = ow @ ''/'' @ rp @ ''@'' @ ver)"
    by auto
  then show ?thesis
    unfolding parse_version_string_Inr matches_version_spec_def by blast
qed

lemma matches_version_spec_last:
  assumes "matches_version_spec v ow rp ver"
  shows "v \<noteq> [] \<and> last v \<noteq> CHR 0x0A"
proof -
  have ver: "spec_version ver" and v: "v = ow @ ''/'' @ rp @ ''@'' @ ver"
    using assms by (simp_all add: matches_version_spec_def)
  have ne: "ver \<noteq> []"
    using ver by (auto simp: spec_version_def spec_semver_def digits_def)
  then have "last v = last ver" using v by simp
  moreover have "last ver \<in> set ver" using ne by simp
  ultimately show ?thesis
    using no_newline_in_version [OF ver] v by auto
qed

text \<open>
  Claim C3. \<^verbatim>\<open>parse_version_string\<close> accepts a string that the version pattern of the
  specification does not describe: a well-formed specifier followed by one newline,
  because \<^verbatim>\<open>$\<close> also matches just before a newline that ends the string. The three
  groups returned leave the newline out. By \<open>parse_version_string_refines\<close> this is the
  only difference, and by \<open>parse_version_string_total\<close> every other string is refused
  with the \<open>ArgumentTypeError\<close> that carries it.
\<close>

theorem trailing_newline_is_accepted:
  "parse_version_string (''foo/bar@latest'' @ [CHR 0x0A]) = Inr (''foo'', ''bar'', ''latest'')
   \<and> \<not> (\<exists>ow rp ver. matches_version_spec (''foo/bar@latest'' @ [CHR 0x0A]) ow rp ver)"
proof
  show "parse_version_string (''foo/bar@latest'' @ [CHR 0x0A]) = Inr (''foo'', ''bar'', ''latest'')"
    by code_simp
next
  show "\<not> (\<exists>ow rp ver. matches_version_spec (''foo/bar@latest'' @ [CHR 0x0A]) ow rp ver)"
    using matches_version_spec_last by fastforce
qed

section \<open>Download and cleanup\<close>

lemma extractall_readable:
  "f d = Some (Dir es) \<Longrightarrow>
   extractall f d (readable nxs) = (Inr (), f(d \<mapsto> Dir (written nxs es)))"
proof (induction nxs arbitrary: f es)
  case Nil
  then show ?case by (simp add: readable_def written_def map_upd_triv)
next
  case (Cons nx nxs)
  obtain n x where nx: "nx = (n, x)" by (cases nx)
  have "extractall (f(d \<mapsto> Dir (AList.update n x es))) d (readable nxs)
        = (Inr (), (f(d \<mapsto> Dir (AList.update n x es)))(d \<mapsto> Dir (written nxs (AList.update n x es))))"
    by (rule Cons.IH) simp
  then have ih: "extractall (f(d \<mapsto> Dir (AList.update n x es))) d (readable nxs)
        = (Inr (), f(d \<mapsto> Dir (written nxs (AList.update n x es))))"
    by simp
  have step: "extractall f d (readable (nx # nxs))
        = extractall (f(d \<mapsto> Dir (AList.update n x es))) d (readable nxs)"
    using Cons.prems nx by (simp add: readable_def)
  have w: "written (nx # nxs) es = written nxs (AList.update n x es)"
    by (simp add: written_def nx)
  show ?case unfolding step w ih ..
qed

text \<open>
  Claim C6, as the code has it. The scan reads the name of each asset in order and stops
  at the first one named exactly \<^verbatim>\<open>dist.zip\<close>. When that asset carries a non-empty
  URL, exactly one request is sent, a GET to that URL with the header
  \<^verbatim>\<open>Accept: application/octet-stream\<close>; when the answer is a success holding an archive
  whose members can be read and the destination is a directory, the call returns and
  the destination holds the members. When the asset list is absent, empty, or holds
  only assets with other names, or when the URL of that first asset is empty, the call
  raises the "dist.zip not found" \<open>ValueError\<close> and leaves the state as it was: nothing is
  written and nothing is requested.
\<close>

theorem download_fetches_dist_zip:
  assumes "list_all named_otherwise pre"
  shows "(assets rel = Some (pre @ a # post) \<and> map_of a ''name'' = Some ''dist.zip''
           \<and> map_of a ''url'' = Some u \<and> u \<noteq> [] \<longrightarrow>
            sent (snd (download_release_asset_zip w rel dest st)) = sent st @ [asset_request u]
            \<and> (\<forall>resp nxs es.
                  http_get w (asset_request u) = Inr resp \<and> raise_for_status resp = Inr ()
                  \<and> content resp = ZipArchive (readable nxs) \<and> fs st dest = Some (Dir es) \<longrightarrow>
                  download_release_asset_zip w rel dest st
                  = (Inr (), st\<lparr>fs := (fs st)(dest \<mapsto> Dir (written nxs es)),
                               sent := sent st @ [asset_request u]\<rparr>)))
       \<and> (assets rel = None \<or> assets rel = Some pre
          \<or> assets rel = Some (pre @ a # post) \<and> map_of a ''name'' = Some ''dist.zip''
             \<and> map_of a ''url'' = Some [] \<longrightarrow>
            download_release_asset_zip w rel dest st
            = (Inl (ValueError ''dist.zip not found in the release assets''), st))"
proof (intro conjI impI)
  assume h: "assets rel = Some (pre @ a # post) \<and> map_of a ''name'' = Some ''dist.zip''
           \<and> map_of a ''url'' = Some u \<and> u \<noteq> []"
  then have sc: "scan_assets (pre @ a # post) = Inr (Some u)"
    using assms by (simp add: scan_assets_skip getitem_def)
  show "sent (snd (download_release_asset_zip w rel dest st)) = sent st @ [asset_request u]"
    using h sc
    by (auto simp: download_release_asset_zip_def requests_get_def
             split: sum.splits body.splits prod.splits)
  show "\<forall>resp nxs es.
          http_get w (asset_request u) = Inr resp \<and> raise_for_status resp = Inr ()
          \<and> content resp = ZipArchive (readable nxs) \<and> fs st dest = Some (Dir es) \<longrightarrow>
          download_release_asset_zip w rel dest st
          = (Inr (), st\<lparr>fs := (fs st)(dest \<mapsto> Dir (written nxs es)),
                       sent := sent st @ [asset_request u]\<rparr>)"
    using h sc
    by (auto simp: download_release_asset_zip_def requests_get_def extractall_readable)
next
  assume "assets rel = None \<or> assets rel = Some pre
          \<or> assets rel = Some (pre @ a # post) \<and> map_of a ''name'' = Some ''dist.zip''
             \<and> map_of a ''url'' = Some []"
  moreover have "scan_assets pre = Inr None"
    using scan_assets_skip [OF assms, of "[]"] by simp
  moreover have "map_of a ''name'' = Some ''dist.zip'' \<and> map_of a ''url'' = Some []
                 \<Longrightarrow> scan_assets (pre @ a # post) = Inr (Some [])"
    using assms by (simp add: scan_assets_skip getitem_def)
  ultimately show "download_release_asset_zip w rel dest st
            = (Inl (ValueError ''dist.zip not found in the release assets''), st)"
    by (auto simp: download_release_asset_zip_def)
qed


theorem download_fetches_dist_zip_witness:
  "list_all named_otherwise [notes_asset]
   \<and> download_release_asset_zip github rel_124 ''/d'' (blank\<lparr>fs := [''/d'' \<mapsto> Dir []]\<rparr>)
       = (Inr (), blank\<lparr>fs := [''/d'' \<mapsto> Dir [(''index.html'', ''<html/>''), (''app.js'', ''run()'')]],
                         sent := [asset_request ''https://h/dist124'']\<rparr>)
   \<and> download_release_asset_zip github rel_100 ''/d'' blank
       = (Inl (ValueError ''dist.zip not found in the release assets''), blank)"
proof -
  have h: "list_all named_otherwise [notes_asset]"
    by (simp add: named_otherwise_def notes_asset_def)
  have a: "assets rel_124 = Some ([notes_asset] @ dist_asset ''https://h/dist124'' # [])
           \<and> map_of (dist_asset ''https://h/dist124'') ''name'' = Some ''dist.zip''
           \<and> map_of (dist_asset ''https://h/dist124'') ''url'' = Some ''https://h/dist124''
           \<and> ''https://h/dist124'' \<noteq> []"
    by (simp add: rel_124_def mk_release_def dist_asset_def)
  have g: "http_get github (asset_request ''https://h/dist124'')
             = Inr \<lparr>status_code = 200, next_link = None, content = ZipArchive good_zip\<rparr>
           \<and> raise_for_status \<lparr>status_code = 200, next_link = None, content = ZipArchive good_zip\<rparr> = Inr ()
           \<and> content \<lparr>status_code = 200, next_link = None, content = ZipArchive good_zip\<rparr>
               = ZipArchive (readable [(''index.html'', ''<html/>''), (''app.js'', ''run()'')])
           \<and> fs (blank\<lparr>fs := [''/d'' \<mapsto> Dir []]\<rparr>) ''/d'' = Some (Dir [])"
    by (simp add: github_def asset_request_def reply_def raise_for_status_def good_zip_def
          readable_def)
  have w: "written [(''index.html'', ''<html/>''), (''app.js'', ''run()'')] []
           = [(''index.html'', ''<html/>''), (''app.js'', ''run()'')]"
    by (simp add: written_def)
  have e: "assets rel_100 = None \<or> assets rel_100 = Some []"
    by (simp add: rel_100_def mk_release_def)
  have n: "list_all named_otherwise []" by simp
  note T = download_fetches_dist_zip [OF h, of rel_124 "dist_asset ''https://h/dist124''" "[]"
            "''https://h/dist124''" github "''/d''" "blank\<lparr>fs := [''/d'' \<mapsto> Dir []]\<rparr>"]
  from T a have "\<forall>resp nxs es.
                  http_get github (asset_request ''https://h/dist124'') = Inr resp
                  \<and> raise_for_status resp = Inr ()
                  \<and> content resp = ZipArchive (readable nxs)
                  \<and> fs (blank\<lparr>fs := [''/d'' \<mapsto> Dir []]\<rparr>) ''/d'' = Some (Dir es) \<longrightarrow>
                  download_release_asset_zip github rel_124 ''/d'' (blank\<lparr>fs := [''/d'' \<mapsto> Dir []]\<rparr>)
                  = (Inr (), (blank\<lparr>fs := [''/d'' \<mapsto> Dir []]\<rparr>)
                       \<lparr>fs := (fs (blank\<lparr>fs := [''/d'' \<mapsto> Dir []]\<rparr>))(''/d'' \<mapsto> Dir (written nxs es)),
                        sent := sent (blank\<lparr>fs := [''/d'' \<mapsto> Dir []]\<rparr>)
                                @ [asset_request ''https://h/dist124'']\<rparr>)"
    by blast
  with g have "download_release_asset_zip github rel_124 ''/d'' (blank\<lparr>fs := [''/d'' \<mapsto> Dir []]\<rparr>)
      = (Inr (), (blank\<lparr>fs := [''/d'' \<mapsto> Dir []]\<rparr>)
           \<lparr>fs := (fs (blank\<lparr>fs := [''/d'' \<mapsto> Dir []]\<rparr>))(''/d'' \<mapsto>
                     Dir (written [(''index.html'', ''<html/>''), (''app.js'', ''run()'')] [])),
            sent := sent (blank\<lparr>fs := [''/d'' \<mapsto> Dir []]\<rparr>)
                    @ [asset_request ''https://h/dist124'']\<rparr>)"
    by blast
  then have 1: "download_release_asset_zip github rel_124 ''/d'' (blank\<lparr>fs := [''/d'' \<mapsto> Dir []]\<rparr>)
       = (Inr (), blank\<lparr>fs := [''/d'' \<mapsto> Dir [(''index.html'', ''<html/>''), (''app.js'', ''run()'')]],
                         sent := [asset_request ''https://h/dist124'']\<rparr>)"
    by (simp add: w blank_def)
  have 2: "download_release_asset_zip github rel_100 ''/d'' blank
       = (Inl (ValueError ''dist.zip not found in the release assets''), blank)"
    using download_fetches_dist_zip [OF n, of rel_100 "[]" "[]" "[]" github "''/d''" blank] e
    by blast
  show ?thesis using h 1 2 by blast
qed

text \<open>
  Claim C6 as stated fails: an asset named \<^verbatim>\<open>dist.zip\<close> is present, yet no GET is sent
  and the call raises, because its URL is the empty string.
\<close>

theorem dist_zip_with_empty_url_is_not_fetched:
  "map_of (dist_asset []) ''name'' = Some ''dist.zip''
   \<and> download_release_asset_zip github (mk_release ''v1.3.0'' (Some [dist_asset []])) ''/d'' blank
       = (Inl (ValueError ''dist.zip not found in the release assets''), blank)
   \<and> sent blank = []"
  by (simp add: download_release_asset_zip_def mk_release_def dist_asset_def getitem_def blank_def)

lemma finally_cleanup_not_empty_dir:
  "fs (snd (finally_cleanup web_root out)) web_root \<noteq> Some (Dir [])"
  by (cases out)
     (auto simp: finally_cleanup_def listdir_def rmdir_def split: option.splits node.splits)

text \<open>
  Claim C8. The download step is entered when the target directory does not exist.
  On every exit from it, with a result or with an exception, the target is not left
  behind as an empty directory. When the \<^verbatim>\<open>try\<close> body fails with the directory created
  and still empty, the directory is removed and the file system is the one from
  before the step. When it fails after files were written, the directory and its files
  stay as they are.
\<close>

theorem download_step_cleans_up:
  assumes "\<not> exists_path (fs st) web_root"
  shows "fs (snd (download_step w p rel web_root st)) web_root \<noteq> Some (Dir [])
       \<and> (\<forall>e st3. try_download w p rel web_root st = (Inl e, st3)
                   \<and> fs st3 = (fs st)(web_root \<mapsto> Dir []) \<longrightarrow>
            download_step w p rel web_root st = (Inl e, st3\<lparr>fs := fs st\<rparr>))
       \<and> (\<forall>e st3 es. try_download w p rel web_root st = (Inl e, st3)
                   \<and> fs st3 web_root = Some (Dir es) \<and> es \<noteq> [] \<longrightarrow>
            download_step w p rel web_root st = (Inl e, st3))"
proof (intro conjI allI impI)
  show "fs (snd (download_step w p rel web_root st)) web_root \<noteq> Some (Dir [])"
    unfolding download_step_def by (rule finally_cleanup_not_empty_dir)
next
  fix e st3
  assume h: "try_download w p rel web_root st = (Inl e, st3) \<and> fs st3 = (fs st)(web_root \<mapsto> Dir [])"
  have "fs st web_root = None" using assms by (simp add: exists_path_def)
  then have "((fs st)(web_root \<mapsto> Dir []))(web_root := None) = fs st"
    by (simp add: fun_upd_idem)
  then show "download_step w p rel web_root st = (Inl e, st3\<lparr>fs := fs st\<rparr>)"
    using h by (simp add: download_step_def finally_cleanup_def listdir_def rmdir_def)
next
  fix e st3 es
  assume "try_download w p rel web_root st = (Inl e, st3) \<and> fs st3 web_root = Some (Dir es) \<and> es \<noteq> []"
  then show "download_step w p rel web_root st = (Inl e, st3)"
    by (simp add: download_step_def finally_cleanup_def listdir_def)
qed


theorem download_step_cleans_up_witness:
  "\<not> exists_path (fs blank) ''/c/w/1.0.0''
   \<and> fst (download_step github acme rel_100 ''/c/w/1.0.0'' blank)
       = Inl (ValueError ''dist.zip not found in the release assets'')
   \<and> fs (snd (download_step github acme rel_100 ''/c/w/1.0.0'' blank)) = fs blank
   \<and> fst (download_step github acme rel_123 ''/c/w/1.2.3'' blank) = Inl BadZipFile
   \<and> fs (snd (download_step github acme rel_123 ''/c/w/1.2.3'' blank)) ''/c/w/1.2.3''
       = Some (Dir [(''index.html'', ''<html/>'')])"
proof -
  have n1: "\<not> exists_path (fs blank) ''/c/w/1.0.0''" and n2: "\<not> exists_path (fs blank) ''/c/w/1.2.3''"
    by (simp_all add: exists_path_def blank_def)
  obtain st3 where t1: "try_download github acme rel_100 ''/c/w/1.0.0'' blank
      = (Inl (ValueError ''dist.zip not found in the release assets''), st3)"
    and f1: "fs st3 = (fs blank)(''/c/w/1.0.0'' \<mapsto> Dir [])"
    by (simp add: try_download_def makedirs_def download_release_asset_zip_def blank_def
          rel_100_def mk_release_def)
  obtain st4 where t2: "try_download github acme rel_123 ''/c/w/1.2.3'' blank = (Inl BadZipFile, st4)"
    and f2: "fs st4 ''/c/w/1.2.3'' = Some (Dir [(''index.html'', ''<html/>'')])"
    by (simp add: try_download_def makedirs_def download_release_asset_zip_def blank_def
          rel_123_def mk_release_def dist_asset_def getitem_def requests_get_def github_def
          asset_request_def reply_def raise_for_status_def)
  have 1: "download_step github acme rel_100 ''/c/w/1.0.0'' blank
           = (Inl (ValueError ''dist.zip not found in the release assets''), st3\<lparr>fs := fs blank\<rparr>)"
    using download_step_cleans_up [OF n1, of github acme rel_100] t1 f1 by blast
  have 2: "download_step github acme rel_123 ''/c/w/1.2.3'' blank = (Inl BadZipFile, st4)"
    using download_step_cleans_up [OF n2, of github acme rel_123] t2 f2 by blast
  show ?thesis using n1 1 2 f2 by simp
qed

section \<open>Resolving a version specifier\<close>


lemma loop_step:
  "u \<noteq> [] \<Longrightarrow>
   all_releases_loop w (Some u) acc st
   = (case http_get w (plain_get u) of
        Inl e \<Rightarrow> Some (Inl e, st\<lparr>sent := sent st @ [plain_get u]\<rparr>)
      | Inr resp \<Rightarrow>
          (case raise_for_status resp of
             Inl e \<Rightarrow> Some (Inl e, st\<lparr>sent := sent st @ [plain_get u]\<rparr>)
           | Inr _ \<Rightarrow>
               (case json_releases resp of
                  Inl e \<Rightarrow> Some (Inl e, st\<lparr>sent := sent st @ [plain_get u]\<rparr>)
                | Inr page \<Rightarrow>
                    all_releases_loop w (next_link resp) (acc @ page)
                      (st\<lparr>sent := sent st @ [plain_get u]\<rparr>))))"
  by (subst all_releases_loop.simps) (simp add: requests_get_def split: sum.splits)

lemma loop_sent_grows_aux:
  assumes "all_releases_loop w0 a0 acc0 st0 = Some y0"
  shows "length (sent st0) \<le> length (sent (snd y0))"
  using assms
proof (induct w0 a0 acc0 st0 y0 rule: all_releases_loop.raw_induct [rotated 1, consumes 1])
  case (1 loop w api_url releases st y)
  show ?case
  proof (cases api_url)
    case None
    with 1(2) show ?thesis by auto
  next
    case (Some u)
    show ?thesis
    proof (cases "u = []")
      case True
      with 1(2) Some show ?thesis by auto
    next
      case False
      show ?thesis
      proof (cases "http_get w (plain_get u)")
        case (Inl e)
        with 1(2) Some False show ?thesis by (auto simp: requests_get_def)
      next
        case (Inr resp)
        show ?thesis
        proof (cases "raise_for_status resp")
          case (Inl e)
          with 1(2) Some False Inr show ?thesis by (auto simp: requests_get_def)
        next
          case ok: (Inr x)
          show ?thesis
          proof (cases "json_releases resp")
            case (Inl e)
            with 1(2) Some False Inr ok show ?thesis by (auto simp: requests_get_def)
          next
            case page: (Inr pg)
            from 1(2) Some False Inr ok page
            have "loop w (next_link resp) (releases @ pg) (st\<lparr>sent := sent st @ [plain_get u]\<rparr>) = Some y"
              by (simp add: requests_get_def)
            from 1(1) [OF this] show ?thesis by simp
          qed
        qed
      qed
    qed
  qed
qed

lemma loop_sent_grows:
  "all_releases_loop w a acc st = Some (r, st') \<Longrightarrow> length (sent st) \<le> length (sent st')"
  by (drule loop_sent_grows_aux) simp

lemma all_releases_sends:
  assumes "all_releases w p st = Some (r, st')"
  shows "length (sent st) < length (sent st')"
proof -
  have ne: "release_url p \<noteq> []" by (simp add: release_url_def)
  from assms show ?thesis
    unfolding all_releases_def loop_step [OF ne]
    by (auto split: sum.splits dest!: loop_sent_grows)
qed

lemma get_release_sends:
  assumes "get_release w p version st = Some (r, st')"
  shows "length (sent st) < length (sent st')"
  using assms
  by (auto simp: get_release_def latest_release_def requests_get_def
           split: if_splits option.splits sum.splits prod.splits dest!: all_releases_sends)


lemma download_sent_grows:
  "length (sent st) \<le> length (sent (snd (download_release_asset_zip w rel dest st)))"
  by (auto simp: download_release_asset_zip_def requests_get_def
           split: sum.splits option.splits body.splits prod.splits if_splits)

lemma download_step_sent_grows:
  "length (sent st) \<le> length (sent (snd (download_step w p rel web_root st)))"
proof -
  have a: "length (sent st) \<le> length (sent (snd (try_download w p rel web_root st)))"
    using download_sent_grows
      [of "st\<lparr>fs := f1, logged := lg\<rparr>" w rel web_root for f1 lg]
    by (auto simp: try_download_def split: sum.splits)
  have b: "sent (snd (finally_cleanup web_root out)) = sent (snd out)" for out
    by (cases out) (auto simp: finally_cleanup_def split: sum.splits)
  show ?thesis unfolding download_step_def b by (rule a)
qed

lemma download_step_sends:
  "download_step w p rel web_root st = (r, st') \<Longrightarrow> length (sent st) \<le> length (sent st')"
  using download_step_sent_grows [of st w p rel web_root] by simp

lemma init_frontend_unsafe_parsed:
  assumes "version_string \<noteq> DEFAULT_VERSION_STRING ev"
    and "parse_version_string version_string = Inr (ow, rp, ver)"
  shows "init_frontend_unsafe ev w version_string prov st
         = (if startswith ver ''v'' \<and> exists_path (fs st) (expected_path_of ev ow rp ver)
            then Some (Inr (expected_path_of ev ow rp ver), info (existing_copy_msg ow rp ver) st)
            else
              (case get_release w (provider_or prov ow rp) ver (info (initializing_msg ow rp ver) st) of
                 None \<Rightarrow> None
               | Some (Inl e, st2) \<Rightarrow> Some (Inl e, st2)
               | Some (Inr rel, st2) \<Rightarrow>
                   if \<not> exists_path (fs st2) (web_root_of ev (provider_or prov ow rp) rel) then
                     (case download_step w (provider_or prov ow rp) rel
                             (web_root_of ev (provider_or prov ow rp) rel) st2 of
                        (Inl e, st3) \<Rightarrow> Some (Inl e, st3)
                      | (Inr _, st3) \<Rightarrow> Some (Inr (web_root_of ev (provider_or prov ow rp) rel), st3))
                   else Some (Inr (web_root_of ev (provider_or prov ow rp) rel), st2)))"
  using assms by (simp add: init_frontend_unsafe_def Let_def)

lemma semver_starts_with_digit:
  assumes "spec_semver sv"
  shows "sv \<noteq> [] \<and> is_digit (hd sv)"
proof -
  from assms obtain a b c where "digits a" "sv = a @ ''.'' @ b @ ''.'' @ c"
    unfolding spec_semver_def by blast
  then show ?thesis by (cases a) (auto simp: digits_def)
qed

lemma v_is_no_digit: "\<not> is_digit CHR ''v''"
  by (simp add: is_digit_def)

lemma parsed_v_version:
  assumes "parse_version_string version_string = Inr (ow, rp, ver)" and "startswith ver ''v''"
  shows "lstrip ver ''v'' = tl ver \<and> spec_semver (tl ver)"
proof -
  have sv: "spec_version ver" using assms(1) unfolding parse_version_string_Inr by blast
  have hd: "ver \<noteq> [] \<and> hd ver = CHR ''v''"
    using assms(2) by (cases ver) (auto simp: startswith_def)
  have "\<exists>v'. ver = ''v'' @ v' \<and> spec_semver v'"
    using sv hd semver_starts_with_digit [of ver] v_is_no_digit
    unfolding spec_version_def by auto
  then obtain v' where v': "ver = ''v'' @ v'" "spec_semver v'" by blast
  then have "v' \<noteq> [] \<and> hd v' \<noteq> CHR ''v''"
    using semver_starts_with_digit [of v'] v_is_no_digit by auto
  then have "dropWhile (\<lambda>c. c \<in> set ''v'') v' = v'"
    by (cases v') auto
  then show ?thesis using v' by (simp add: lstrip_def)
qed

text \<open>
  Claim C2, as the code has it. For a parsed specifier, the cache is probed only when
  the version starts with \<^verbatim>\<open>v\<close>; the probed path is the cache root joined with
  \<^verbatim>\<open>{owner}_{repo}\<close> and the version without its \<^verbatim>\<open>v\<close>. The call returns that path at
  once, with no request sent, exactly when the version starts with \<^verbatim>\<open>v\<close> and the path
  exists, whatever the directory holds. In every other case (a version without
  \<^verbatim>\<open>v\<close>, \<^verbatim>\<open>latest\<close>, or a missing path) a call that returns has sent at least one request.
\<close>

theorem cache_probe_only_on_v_prefix:
  assumes "version_string \<noteq> DEFAULT_VERSION_STRING ev"
    and "parse_version_string version_string = Inr (ow, rp, ver)"
  shows "(startswith ver ''v'' \<and> exists_path (fs st) (expected_path_of ev ow rp ver) \<longrightarrow>
            init_frontend_unsafe ev w version_string prov st
            = Some (Inr (expected_path_of ev ow rp ver), info (existing_copy_msg ow rp ver) st)
            \<and> sent (info (existing_copy_msg ow rp ver) st) = sent st
            \<and> expected_path_of ev ow rp ver
               = joinpath ev (CUSTOM_FRONTENDS_ROOT ev) [ow @ ''_'' @ rp, tl ver])
       \<and> (\<not> (startswith ver ''v'' \<and> exists_path (fs st) (expected_path_of ev ow rp ver)) \<longrightarrow>
            (\<forall>r st'. init_frontend_unsafe ev w version_string prov st = Some (r, st') \<longrightarrow>
               length (sent st) < length (sent st')))"
proof (intro conjI impI allI)
  assume hit: "startswith ver ''v'' \<and> exists_path (fs st) (expected_path_of ev ow rp ver)"
  then show "init_frontend_unsafe ev w version_string prov st
            = Some (Inr (expected_path_of ev ow rp ver), info (existing_copy_msg ow rp ver) st)"
    unfolding init_frontend_unsafe_parsed [OF assms] by simp
  show "sent (info (existing_copy_msg ow rp ver) st) = sent st"
    by (simp add: info_def)
  show "expected_path_of ev ow rp ver
               = joinpath ev (CUSTOM_FRONTENDS_ROOT ev) [ow @ ''_'' @ rp, tl ver]"
    using parsed_v_version [OF assms(2)] hit by (simp add: expected_path_of_def)
next
  fix r st'
  assume miss: "\<not> (startswith ver ''v'' \<and> exists_path (fs st) (expected_path_of ev ow rp ver))"
    and res: "init_frontend_unsafe ev w version_string prov st = Some (r, st')"
  from res miss obtain rr st2 where
    g: "get_release w (provider_or prov ow rp) ver (info (initializing_msg ow rp ver) st) = Some (rr, st2)"
    unfolding init_frontend_unsafe_parsed [OF assms]
    by (auto split: option.splits)
  have 1: "length (sent st) < length (sent st2)"
    using get_release_sends [OF g] by (simp add: info_def)
  have 2: "length (sent st2) \<le> length (sent st')"
    using res miss g
    unfolding init_frontend_unsafe_parsed [OF assms]
    by (auto split: sum.splits if_splits prod.splits dest: download_step_sends)
  from 1 2 show "length (sent st) < length (sent st')" by simp
qed


lemma offline_releases:
  "all_releases offline p st
   = Some (Inl (ConnectionError ''unreachable''), st\<lparr>sent := sent st @ [plain_get (release_url p)]\<rparr>)"
proof -
  have ne: "release_url p \<noteq> []" by (simp add: release_url_def)
  show ?thesis unfolding all_releases_def loop_step [OF ne] by (simp add: offline_def)
qed

lemma parse_samples:
  "parse_version_string ''acme/widgets@2.0.0'' = Inr (''acme'', ''widgets'', ''2.0.0'')"
  "parse_version_string ''acme/widgets@v2.0.0'' = Inr (''acme'', ''widgets'', ''v2.0.0'')"
  "parse_version_string ''acme/gadgets@v1.0.0'' = Inr (''acme'', ''gadgets'', ''v1.0.0'')"
  "parse_version_string ''acme/widgets@latest'' = Inr (''acme'', ''widgets'', ''latest'')"
  "parse_version_string ''acme/vtool@latest'' = Inr (''acme'', ''vtool'', ''latest'')"
  by code_simp+

text \<open>
  Claim C2 as stated fails both ways. With the directory of 2.0.0 present and holding
  a file, the specifier \<^verbatim>\<open>acme/widgets@2.0.0\<close> is not served from the cache: the release
  list is requested. With the directory present and empty, \<^verbatim>\<open>acme/widgets@v2.0.0\<close> is
  served from the cache with no request.
\<close>

theorem cache_probe_ignores_bare_versions_and_contents:
  "listdir (fs populated) ''/comfy/web_custom_versions/acme_widgets/2.0.0'' = Inr [''index.html'']
   \<and> init_frontend_unsafe posix_env offline ''acme/widgets@2.0.0'' None populated
       = Some (Inl (ConnectionError ''unreachable''),
               populated\<lparr>sent := [plain_get ''https://api.github.com/repos/acme/widgets/releases''],
                          logged := [LogInfo (initializing_msg ''acme'' ''widgets'' ''2.0.0'')]\<rparr>)
   \<and> listdir (fs stale) ''/comfy/web_custom_versions/acme_widgets/2.0.0'' = Inr []
   \<and> init_frontend_unsafe posix_env offline ''acme/widgets@v2.0.0'' None stale
       = Some (Inr ''/comfy/web_custom_versions/acme_widgets/2.0.0'',
               stale\<lparr>logged := [LogInfo (existing_copy_msg ''acme'' ''widgets'' ''v2.0.0'')]\<rparr>)
   \<and> sent stale = []"
proof -
  have d: "''acme/widgets@2.0.0'' \<noteq> DEFAULT_VERSION_STRING posix_env"
    "''acme/widgets@v2.0.0'' \<noteq> DEFAULT_VERSION_STRING posix_env"
    by (simp_all add: posix_env_def)
  have 1: "init_frontend_unsafe posix_env offline ''acme/widgets@2.0.0'' None populated
       = Some (Inl (ConnectionError ''unreachable''),
               populated\<lparr>sent := [plain_get ''https://api.github.com/repos/acme/widgets/releases''],
                          logged := [LogInfo (initializing_msg ''acme'' ''widgets'' ''2.0.0'')]\<rparr>)"
    unfolding init_frontend_unsafe_parsed [OF d(1) parse_samples(1)]
    by (simp add: startswith_def get_release_def offline_releases info_def provider_or_def
          release_url_def populated_def blank_def)
  have 2: "init_frontend_unsafe posix_env offline ''acme/widgets@v2.0.0'' None stale
       = Some (Inr ''/comfy/web_custom_versions/acme_widgets/2.0.0'',
               stale\<lparr>logged := [LogInfo (existing_copy_msg ''acme'' ''widgets'' ''v2.0.0'')]\<rparr>)"
    unfolding init_frontend_unsafe_parsed [OF d(2) parse_samples(2)]
    by (simp add: startswith_def expected_path_of_def lstrip_def posix_env_def exists_path_def
          stale_def blank_def info_def)
  show ?thesis using 1 2
    by (simp add: listdir_def populated_def stale_def blank_def)
qed


lemma gadgets_releases:
  "all_releases github gadgets st
   = Some (Inl (HTTPError 500),
           st\<lparr>sent := sent st @ [plain_get ''https://api.github.com/repos/acme/gadgets/releases'',
                                   plain_get ''https://h/g2'']\<rparr>)"
  using all_releases_loop_walk [OF gadgets_walk, of "[]" st]
  by (simp add: all_releases_def walk_result_def walk_requests_def)

theorem cache_probe_only_on_v_prefix_witness:
  "''acme/widgets@v2.0.0'' \<noteq> DEFAULT_VERSION_STRING posix_env
   \<and> parse_version_string ''acme/widgets@v2.0.0'' = Inr (''acme'', ''widgets'', ''v2.0.0'')
   \<and> init_frontend_unsafe posix_env github ''acme/widgets@v2.0.0'' None populated
       = Some (Inr ''/comfy/web_custom_versions/acme_widgets/2.0.0'',
               info (existing_copy_msg ''acme'' ''widgets'' ''v2.0.0'') populated)
   \<and> parse_version_string ''acme/gadgets@v1.0.0'' = Inr (''acme'', ''gadgets'', ''v1.0.0'')
   \<and> init_frontend_unsafe posix_env github ''acme/gadgets@v1.0.0'' None blank
       = Some (Inl (HTTPError 500),
               blank\<lparr>sent := [plain_get ''https://api.github.com/repos/acme/gadgets/releases'',
                               plain_get ''https://h/g2''],
                      logged := [LogInfo (initializing_msg ''acme'' ''gadgets'' ''v1.0.0'')]\<rparr>)
   \<and> length (sent blank)
       < length (sent (blank\<lparr>sent := [plain_get ''https://api.github.com/repos/acme/gadgets/releases'',
                                        plain_get ''https://h/g2''],
                               logged := [LogInfo (initializing_msg ''acme'' ''gadgets'' ''v1.0.0'')]\<rparr>))"
proof -
  have d: "''acme/widgets@v2.0.0'' \<noteq> DEFAULT_VERSION_STRING posix_env"
    "''acme/gadgets@v1.0.0'' \<noteq> DEFAULT_VERSION_STRING posix_env"
    by (simp_all add: posix_env_def)
  have e: "expected_path_of posix_env ''acme'' ''widgets'' ''v2.0.0''
           = ''/comfy/web_custom_versions/acme_widgets/2.0.0''"
    by (simp add: expected_path_of_def lstrip_def posix_env_def)
  have hit: "startswith ''v2.0.0'' ''v''
             \<and> exists_path (fs populated) (expected_path_of posix_env ''acme'' ''widgets'' ''v2.0.0'')"
    unfolding e by (simp add: startswith_def exists_path_def populated_def blank_def)
  have 1: "init_frontend_unsafe posix_env github ''acme/widgets@v2.0.0'' None populated
       = Some (Inr ''/comfy/web_custom_versions/acme_widgets/2.0.0'',
               info (existing_copy_msg ''acme'' ''widgets'' ''v2.0.0'') populated)"
    using cache_probe_only_on_v_prefix [OF d(1) parse_samples(2), of populated github None] hit e
    by simp
  have miss: "\<not> (startswith ''v1.0.0'' ''v''
             \<and> exists_path (fs blank) (expected_path_of posix_env ''acme'' ''gadgets'' ''v1.0.0''))"
    by (simp add: exists_path_def blank_def)
  have 2: "init_frontend_unsafe posix_env github ''acme/gadgets@v1.0.0'' None blank
       = Some (Inl (HTTPError 500),
               blank\<lparr>sent := [plain_get ''https://api.github.com/repos/acme/gadgets/releases'',
                               plain_get ''https://h/g2''],
                      logged := [LogInfo (initializing_msg ''acme'' ''gadgets'' ''v1.0.0'')]\<rparr>)"
    unfolding init_frontend_unsafe_parsed [OF d(2) parse_samples(3)]
    using miss gadgets_releases [of "info (initializing_msg ''acme'' ''gadgets'' ''v1.0.0'') blank"]
    by (simp add: get_release_def provider_or_def gadgets_def info_def blank_def)
  have 3: "length (sent blank)
       < length (sent (blank\<lparr>sent := [plain_get ''https://api.github.com/repos/acme/gadgets/releases'',
                                        plain_get ''https://h/g2''],
                               logged := [LogInfo (initializing_msg ''acme'' ''gadgets'' ''v1.0.0'')]\<rparr>))"
    using cache_probe_only_on_v_prefix [OF d(2) parse_samples(3), of blank github None] miss 2
    by blast
  show ?thesis using d(1) parse_samples(2,3) 1 2 3 by blast
qed









section \<open>The fallback to the default frontend\<close>







end
